theory Spec2Isabelle
  imports Main "HOL-Library.Word" "HOL-Library.AList" "HOL-Library.Finite_Map"
begin

section \<open>Data model\<close>

text \<open>
  The processor exists in two versions, \<^verbatim>\<open>src/unnamed/part_000\<close> and
  \<^verbatim>\<open>src/unnamed/part_001\<close>. A function that both define, with different behaviour,
  carries the suffix \<open>_000\<close> or \<open>_001\<close>. A function without suffix is either the
  same text in both (\<^verbatim>\<open>saveAccounts\<close> after its fetch, \<^verbatim>\<open>encodeId\<close>) or defined in one
  of them only: \<^verbatim>\<open>getLastChainState\<close> and \<^verbatim>\<open>SAVE_PERIOD\<close> in part_000; the nine
  functions \<^verbatim>\<open>getBalanceSetAccount\<close>, ..., \<^verbatim>\<open>getReserveRepatriatedAccounts\<close> in part_001.
  Part_000 calls those nine without defining or importing them.

  A \<^verbatim>\<open>Uint8Array\<close> is a list of bytes, a \<^verbatim>\<open>bigint\<close> is an \<open>int\<close>, block heights
  and row counts are \<open>nat\<close>, timestamps (milliseconds) are \<open>int\<close>.
\<close>

type_synonym bytes = "8 word list"

text \<open>Everything the code can throw.\<close>

datatype error =
    UnknownVersionError string
  | AssertionError
  | TypeError
  | ReferenceError
  | QueryFailedError

definition andThen :: "error + 'a \<Rightarrow> ('a \<Rightarrow> error + 'b) \<Rightarrow> error + 'b" where
  "andThen r f = (case r of Inl e \<Rightarrow> Inl e | Inr x \<Rightarrow> f x)"

text \<open>\<^verbatim>\<open>types/generated/v1.ts\<close>: \<^verbatim>\<open>AccountData\<close> and \<^verbatim>\<open>AccountInfo\<close>. The declaration of
  \<^verbatim>\<open>v3.AccountInfo\<close> is not among the sources; the processor reads only
  \<^verbatim>\<open>data.free\<close> and \<^verbatim>\<open>data.reserved\<close> of it, so the same record stands for both.\<close>

record AccountData =
  data_free :: int
  data_reserved :: int
  miscFrozen :: int
  feeFrozen :: int

record AccountInfo =
  nonce :: nat
  consumers :: nat
  providers :: nat
  data :: AccountData

text \<open>\<^verbatim>\<open>interface Balance\<close> of the processor.\<close>

record Balance =
  free :: int
  reserved :: int

text \<open>The entity \<^verbatim>\<open>Account\<close>. \<^verbatim>\<open>new Account({ id })\<close> leaves every other field
  undefined, so the fields other than the id are optional. (\<open>id\<close> and \<open>total\<close> are
  constants of HOL, \<open>free\<close> and \<open>reserved\<close> are the fields of \<open>Balance\<close>: the fields here
  are \<open>accountId\<close>, \<open>acc_free\<close>, \<open>acc_reserved\<close> and \<open>totalAmount\<close>.)\<close>

record Account =
  accountId :: string
  acc_free :: "int option"
  acc_reserved :: "int option"
  totalAmount :: "int option"
  updatedAt :: "nat option"

text \<open>The entity \<^verbatim>\<open>ChainState\<close> (and \<^verbatim>\<open>CurrentChainState\<close>, of the same shape).\<close>

record ChainState =
  stateId :: string
  stateTimestamp :: int
  blockNumber :: nat
  totalIssuance :: int
  tokenHolders :: nat

text \<open>\<^verbatim>\<open>SubstrateBlock\<close>: the header of a block.\<close>

record SubstrateBlock =
  blockId :: string
  height :: nat
  hash :: string
  timestamp :: int

subsection \<open>The chain client\<close>

text \<open>
  \<^verbatim>\<open>ctx._chain\<close> is an external collaborator. It is represented by what the code asks
  of it: the type hash of a storage item at the runtime in force
  (\<^verbatim>\<open>getStorageItemTypeHash\<close>, undefined when the item does not exist), the value of
  \<^verbatim>\<open>System.Account\<close> under a key at a block hash, and the value of
  \<^verbatim>\<open>Balances.TotalIssuance\<close> at a block hash.
\<close>

record Chain =
  getStorageItemTypeHash :: "string \<Rightarrow> string \<Rightarrow> string option"
  systemAccountAt :: "string \<Rightarrow> bytes list \<Rightarrow> AccountInfo"
  totalIssuanceAt :: "string \<Rightarrow> int"

text \<open>\<^verbatim>\<open>queryStorage(blockHash, 'System', 'Account', keys)\<close>: one value per key, in the
  order of the keys.\<close>

definition queryStorage :: "Chain \<Rightarrow> string \<Rightarrow> bytes list list \<Rightarrow> AccountInfo list" where
  "queryStorage ch blockHash keys = map (systemAccountAt ch blockHash) keys"

text \<open>\<^verbatim>\<open>getStorage(blockHash, 'Balances', 'TotalIssuance')\<close>.\<close>

definition getStorage :: "Chain \<Rightarrow> string \<Rightarrow> int" where
  "getStorage ch blockHash = totalIssuanceAt ch blockHash"

subsection \<open>The libraries\<close>

text \<open>\<^verbatim>\<open>toHex\<close> and \<^verbatim>\<open>decodeHex\<close> of the substrate processor and the encoder of
  \<^verbatim>\<open>ss58.codec(name)\<close> are library code; they are parameters of the model.\<close>

record Lib =
  toHex :: "bytes \<Rightarrow> string"
  decodeHex :: "string \<Rightarrow> bytes"
  ss58_encode :: "string \<Rightarrow> bytes \<Rightarrow> string"

definition encodeId :: "Lib \<Rightarrow> bytes \<Rightarrow> string" where
  "encodeId lib a = ss58_encode lib ''calamari'' a"

subsection \<open>The store\<close>

text \<open>
  The persisted tables. \<open>accounts\<close> is the table of \<^verbatim>\<open>Account\<close> rows under their
  primary key, \<open>chainStates\<close> the rows of \<^verbatim>\<open>ChainState\<close> in the order of insertion,
  \<open>currentChainState\<close> the row of \<^verbatim>\<open>CurrentChainState\<close>.
\<close>

record Store =
  accounts :: "(string, Account) fmap"
  chainStates :: "ChainState list"
  currentChainState :: "ChainState option"

text \<open>\<^verbatim>\<open>store.save(entities)\<close>: upsert each entity under its id, in order.\<close>

definition store_save :: "Store \<Rightarrow> Account list \<Rightarrow> Store" where
  "store_save st es = st\<lparr>accounts := fold (\<lambda>e m. fmupd (accountId e) e m) es (accounts st)\<rparr>"

text \<open>\<^verbatim>\<open>store.remove(entities)\<close>: delete the row of each entity's id, if there is one.\<close>

definition store_remove :: "Store \<Rightarrow> Account list \<Rightarrow> Store" where
  "store_remove st es = st\<lparr>accounts := fold (\<lambda>e m. fmdrop (accountId e) m) es (accounts st)\<rparr>"

text \<open>\<^verbatim>\<open>store.count(Account)\<close>.\<close>

definition store_count :: "Store \<Rightarrow> nat" where
  "store_count st = fcard (fmdom (accounts st))"

text \<open>\<^verbatim>\<open>store.insert(state)\<close>: a plain insert, which fails when a row with that id
  exists.\<close>

definition store_insert :: "Store \<Rightarrow> ChainState \<Rightarrow> error + Store" where
  "store_insert st s =
     (if stateId s \<in> set (map stateId (chainStates st)) then Inl QueryFailedError
      else Inr (st\<lparr>chainStates := chainStates st @ [s]\<rparr>))"

text \<open>\<^verbatim>\<open>getLastChainState\<close>: \<^verbatim>\<open>store.get(ChainState, {where: {}, order: {timestamp: 'DESC'}})\<close>,
  a row of greatest timestamp, undefined when the table is empty.\<close>

definition getLastChainState :: "Store \<Rightarrow> ChainState option" where
  "getLastChainState st =
     (case chainStates st of
        [] \<Rightarrow> None
      | r # rs \<Rightarrow> Some (fold (\<lambda>x best. if stateTimestamp best < stateTimestamp x then x else best) rs r))"

section \<open>Storage classes (\<^verbatim>\<open>types/generated/storage.ts\<close>)\<close>

definition SystemAccount_V1 :: string where
  "SystemAccount_V1 = ''73070b537f1805475b37167271b33ac7fd6ffad8ba62da08bc14937a017b8bb2''"

definition SystemAccount_V3 :: string where
  "SystemAccount_V3 = ''1ddc7ade926221442c388ee4405a71c9428e548fab037445aaf4b3a78f4735c1''"

definition TotalIssuance_V1 :: string where
  "TotalIssuance_V1 = ''f8ebe28eb30158172c0ccf672f7747c46a244f892d08ef2ebcbaadde34a26bc0''"

definition SystemAccountStorage_isV1 :: "Chain \<Rightarrow> bool" where
  "SystemAccountStorage_isV1 ch \<longleftrightarrow>
     getStorageItemTypeHash ch ''System'' ''Account'' = Some SystemAccount_V1"

definition SystemAccountStorage_isV3 :: "Chain \<Rightarrow> bool" where
  "SystemAccountStorage_isV3 ch \<longleftrightarrow>
     getStorageItemTypeHash ch ''System'' ''Account'' = Some SystemAccount_V3"

definition SystemAccountStorage_isExists :: "Chain \<Rightarrow> bool" where
  "SystemAccountStorage_isExists ch \<longleftrightarrow> getStorageItemTypeHash ch ''System'' ''Account'' \<noteq> None"

definition SystemAccountStorage_getManyAsV1 ::
  "Chain \<Rightarrow> string \<Rightarrow> bytes list \<Rightarrow> error + AccountInfo list" where
  "SystemAccountStorage_getManyAsV1 ch blockHash keys =
     (if SystemAccountStorage_isV1 ch then Inr (queryStorage ch blockHash (map (\<lambda>k. [k]) keys))
      else Inl AssertionError)"

definition SystemAccountStorage_getManyAsV3 ::
  "Chain \<Rightarrow> string \<Rightarrow> bytes list \<Rightarrow> error + AccountInfo list" where
  "SystemAccountStorage_getManyAsV3 ch blockHash keys =
     (if SystemAccountStorage_isV3 ch then Inr (queryStorage ch blockHash (map (\<lambda>k. [k]) keys))
      else Inl AssertionError)"

definition BalancesTotalIssuanceStorage_isV1 :: "Chain \<Rightarrow> bool" where
  "BalancesTotalIssuanceStorage_isV1 ch \<longleftrightarrow>
     getStorageItemTypeHash ch ''Balances'' ''TotalIssuance'' = Some TotalIssuance_V1"

definition BalancesTotalIssuanceStorage_isExists :: "Chain \<Rightarrow> bool" where
  "BalancesTotalIssuanceStorage_isExists ch \<longleftrightarrow>
     getStorageItemTypeHash ch ''Balances'' ''TotalIssuance'' \<noteq> None"

definition BalancesTotalIssuanceStorage_getAsV1 :: "Chain \<Rightarrow> string \<Rightarrow> error + int" where
  "BalancesTotalIssuanceStorage_getAsV1 ch blockHash =
     (if BalancesTotalIssuanceStorage_isV1 ch then Inr (getStorage ch blockHash)
      else Inl AssertionError)"

section \<open>Balance fetch\<close>

text \<open>\<^verbatim>\<open>data.map((d) => ({ free: d.data.free, reserved: d.data.reserved }))\<close>\<close>

definition toBalance :: "AccountInfo \<Rightarrow> Balance" where
  "toBalance d = \<lparr>free = data_free (data d), reserved = data_reserved (data d)\<rparr>"

text \<open>\<^verbatim>\<open>getSystemAccountBalances\<close> of part_000: the existence check, then the query,
  with no test of the version. The result \<open>None\<close> is \<^verbatim>\<open>undefined\<close>.\<close>

definition getSystemAccountBalances_000 ::
  "Chain \<Rightarrow> SubstrateBlock \<Rightarrow> bytes list \<Rightarrow> Balance option list option" where
  "getSystemAccountBalances_000 ch block accs =
     (if \<not> SystemAccountStorage_isExists ch then None
      else Some (map (\<lambda>d. Some (toBalance d))
                   (queryStorage ch (hash block) (map (\<lambda>a. [a]) accs))))"

definition getBalances_000 ::
  "Chain \<Rightarrow> SubstrateBlock \<Rightarrow> bytes list \<Rightarrow> Balance option list option" where
  "getBalances_000 ch block accs = getSystemAccountBalances_000 ch block accs"

text \<open>\<^verbatim>\<open>getSystemAccountBalances\<close> of part_001: version 1 when the hash is that of V1,
  otherwise \<^verbatim>\<open>getManyAsV3\<close>, whose assertion fails unless the hash is that of V3.\<close>

definition getSystemAccountBalances_001 ::
  "Chain \<Rightarrow> SubstrateBlock \<Rightarrow> bytes list \<Rightarrow> error + Balance option list option" where
  "getSystemAccountBalances_001 ch block accs =
     (if \<not> SystemAccountStorage_isExists ch then Inr None
      else if SystemAccountStorage_isV1 ch then
        andThen (SystemAccountStorage_getManyAsV1 ch (hash block) accs)
          (\<lambda>ds. Inr (Some (map (\<lambda>d. Some (toBalance d)) ds)))
      else
        andThen (SystemAccountStorage_getManyAsV3 ch (hash block) accs)
          (\<lambda>ds. Inr (Some (map (\<lambda>d. Some (toBalance d)) ds))))"

definition getBalances_001 ::
  "Chain \<Rightarrow> SubstrateBlock \<Rightarrow> bytes list \<Rightarrow> error + Balance option list option" where
  "getBalances_001 ch block accs = getSystemAccountBalances_001 ch block accs"

section \<open>Reconciliation: \<^verbatim>\<open>saveAccounts\<close>\<close>

text \<open>\<^verbatim>\<open>balances[i]\<close>: reading past the end of a JavaScript array gives
  \<^verbatim>\<open>undefined\<close>.\<close>

definition balanceAt :: "Balance option list \<Rightarrow> nat \<Rightarrow> Balance option" where
  "balanceAt balances i = (if i < length balances then balances ! i else None)"

text \<open>The two \<^verbatim>\<open>Map<string, Account>\<close> of \<^verbatim>\<open>saveAccounts\<close> keep their keys in the
  order of first insertion and overwrite in place, which is \<open>AList.update\<close>.\<close>

type_synonym accountMap = "(string \<times> Account) list"

text \<open>\<^verbatim>\<open>new Account({ id, free: balance.free, reserved: balance.reserved, total,
  updatedAt: block.height })\<close> and \<^verbatim>\<open>new Account({ id })\<close>.\<close>

definition newAccount :: "string \<Rightarrow> Balance \<Rightarrow> int \<Rightarrow> nat \<Rightarrow> Account" where
  "newAccount ident balance tot blockHeight =
     \<lparr>accountId = ident, acc_free = Some (free balance), acc_reserved = Some (reserved balance),
      totalAmount = Some tot, updatedAt = Some blockHeight\<rparr>"

definition newAccountId :: "string \<Rightarrow> Account" where
  "newAccountId ident =
     \<lparr>accountId = ident, acc_free = None, acc_reserved = None, totalAmount = None,
      updatedAt = None\<rparr>"

text \<open>The body of the \<^verbatim>\<open>for\<close> loop of \<^verbatim>\<open>saveAccounts\<close> at one index: \<open>ident\<close> is the
  encoded id, \<open>balance\<close> is \<^verbatim>\<open>balances[i]\<close>, the pair holds the maps \<^verbatim>\<open>accounts\<close> and
  \<^verbatim>\<open>deletions\<close>.\<close>

definition saveAccountsStep ::
  "nat \<Rightarrow> string \<Rightarrow> Balance option \<Rightarrow> accountMap \<times> accountMap \<Rightarrow> accountMap \<times> accountMap" where
  "saveAccountsStep blockHeight ident balance maps =
     (case balance of
        None \<Rightarrow> maps
      | Some b \<Rightarrow>
          (let tot = free b + reserved b in
           if 0 < tot then
             (AList.update ident (newAccount ident b tot blockHeight) (fst maps), snd maps)
           else
             (fst maps, AList.update ident (newAccountId ident) (snd maps))))"

text \<open>\<^verbatim>\<open>for (let i = 0; i < accountIds.length; i++)\<close>, from index \<open>i\<close> on.\<close>

function saveAccountsLoop ::
  "Lib \<Rightarrow> nat \<Rightarrow> bytes list \<Rightarrow> Balance option list \<Rightarrow> nat \<Rightarrow> accountMap \<times> accountMap
     \<Rightarrow> accountMap \<times> accountMap" where
  "saveAccountsLoop lib blockHeight accountIds balances i maps =
     (if i < length accountIds then
        saveAccountsLoop lib blockHeight accountIds balances (i + 1)
          (saveAccountsStep blockHeight (encodeId lib (accountIds ! i)) (balanceAt balances i) maps)
      else maps)"
  by pat_completeness auto
termination
  by (relation "measure (\<lambda>(lib, h, accountIds, balances, i, maps). length accountIds - i)") auto

declare saveAccountsLoop.simps [simp del]

text \<open>For the proofs: the two maps after the first \<open>n\<close> iterations of the loop.\<close>

definition loopPrefix ::
  "Lib \<Rightarrow> nat \<Rightarrow> bytes list \<Rightarrow> Balance option list \<Rightarrow> nat \<Rightarrow> accountMap \<times> accountMap" where
  "loopPrefix lib blockHeight accountIds balances n =
     fold (\<lambda>j. saveAccountsStep blockHeight (encodeId lib (accountIds ! j)) (balanceAt balances j))
       [0..<n] ([], [])"

text \<open>\<^verbatim>\<open>saveAccounts\<close> after \<^verbatim>\<open>const balances = await getBalances(...)\<close>: the text
  is the same in both versions.\<close>

definition saveAccountsWith ::
  "Lib \<Rightarrow> Store \<Rightarrow> SubstrateBlock \<Rightarrow> bytes list \<Rightarrow> Balance option list option \<Rightarrow> Store" where
  "saveAccountsWith lib st block accountIds balances =
     (case balances of
        None \<Rightarrow> st
      | Some bs \<Rightarrow>
          (let maps = saveAccountsLoop lib (height block) accountIds bs 0 ([], []) in
           store_remove (store_save st (map snd (fst maps))) (map snd (snd maps))))"

definition saveAccounts_000 :: "Lib \<Rightarrow> Chain \<Rightarrow> Store \<Rightarrow> SubstrateBlock \<Rightarrow> bytes list \<Rightarrow> Store" where
  "saveAccounts_000 lib ch st block accountIds =
     saveAccountsWith lib st block accountIds (getBalances_000 ch block accountIds)"

definition saveAccounts_001 ::
  "Lib \<Rightarrow> Chain \<Rightarrow> Store \<Rightarrow> SubstrateBlock \<Rightarrow> bytes list \<Rightarrow> error + Store" where
  "saveAccounts_001 lib ch st block accountIds =
     andThen (getBalances_001 ch block accountIds)
       (\<lambda>balances. Inr (saveAccountsWith lib st block accountIds balances))"

section \<open>Events and their accounts\<close>

text \<open>
  Modelled from the spec: the generated event classes (\<^verbatim>\<open>types/generated/events\<close>) are
  not among the sources. An event is represented by what its class shows to the
  processor: for each decoder version whether the fingerprint of the runtime in force
  is that version's (\<open>isV1\<close>, \<open>isV3100\<close>, \<open>isV3110\<close>), and the payload decoded at
  that version. Of a positional payload (\<^verbatim>\<open>asV1\<close>, \<^verbatim>\<open>asV3100\<close>) only the components 0
  and 1 are read; a named payload (\<^verbatim>\<open>asV3110\<close>) has the fields \<^verbatim>\<open>who\<close>, \<^verbatim>\<open>account\<close>,
  \<^verbatim>\<open>from\<close> and \<^verbatim>\<open>to\<close>.
\<close>

record V3110Args =
  who :: bytes
  account :: bytes
  fromId :: bytes
  toId :: bytes

record EventData =
  isV1 :: bool
  isV3100 :: bool
  isV3110 :: bool
  asV1 :: "bytes \<times> bytes"
  asV3100 :: "bytes \<times> bytes"
  asV3110 :: V3110Args

record Item =
  kind :: string
  name :: string
  event :: EventData

record Block =
  header :: SubstrateBlock
  items :: "Item list"

definition getBalanceSetAccount :: "Lib \<Rightarrow> EventData \<Rightarrow> error + string" where
  "getBalanceSetAccount lib d =
     (if isV1 d then Inr (toHex lib (fst (asV1 d)))
      else if isV3110 d then Inr (toHex lib (who (asV3110 d)))
      else Inl (UnknownVersionError ''BalancesBalanceSetEvent''))"

definition getTransferAccounts :: "Lib \<Rightarrow> EventData \<Rightarrow> error + string \<times> string" where
  "getTransferAccounts lib d =
     (if isV1 d then Inr (toHex lib (fst (asV1 d)), toHex lib (snd (asV1 d)))
      else if isV3110 d then Inr (toHex lib (fromId (asV3110 d)), toHex lib (toId (asV3110 d)))
      else Inl (UnknownVersionError ''BalancesTransferEvent''))"

definition getEndowedAccount :: "Lib \<Rightarrow> EventData \<Rightarrow> error + string" where
  "getEndowedAccount lib d =
     (if isV1 d then Inr (toHex lib (fst (asV1 d)))
      else if isV3110 d then Inr (toHex lib (account (asV3110 d)))
      else Inl (UnknownVersionError ''BalancesEndowedEvent''))"

definition getDepositAccount :: "Lib \<Rightarrow> EventData \<Rightarrow> error + string" where
  "getDepositAccount lib d =
     (if isV1 d then Inr (toHex lib (fst (asV1 d)))
      else if isV3110 d then Inr (toHex lib (who (asV3110 d)))
      else Inl (UnknownVersionError ''BalancesDepositEvent''))"

definition getReservedAccount :: "Lib \<Rightarrow> EventData \<Rightarrow> error + string" where
  "getReservedAccount lib d =
     (if isV1 d then Inr (toHex lib (fst (asV1 d)))
      else if isV3110 d then Inr (toHex lib (who (asV3110 d)))
      else Inl (UnknownVersionError ''BalancesReservedEvent''))"

definition getUnreservedAccount :: "Lib \<Rightarrow> EventData \<Rightarrow> error + string" where
  "getUnreservedAccount lib d =
     (if isV1 d then Inr (toHex lib (fst (asV1 d)))
      else if isV3110 d then Inr (toHex lib (who (asV3110 d)))
      else Inl (UnknownVersionError ''BalancesUnreservedEvent''))"

definition getWithdrawAccount :: "Lib \<Rightarrow> EventData \<Rightarrow> error + string" where
  "getWithdrawAccount lib d =
     (if isV3100 d then Inr (toHex lib (fst (asV3100 d)))
      else if isV3110 d then Inr (toHex lib (who (asV3110 d)))
      else Inl (UnknownVersionError ''BalancesWithdrawEvent''))"

definition getSlashedAccount :: "Lib \<Rightarrow> EventData \<Rightarrow> error + string" where
  "getSlashedAccount lib d =
     (if isV3100 d then Inr (toHex lib (fst (asV3100 d)))
      else if isV3110 d then Inr (toHex lib (who (asV3110 d)))
      else Inl (UnknownVersionError ''BalancesSlashedEvent''))"

definition getReserveRepatriatedAccounts :: "Lib \<Rightarrow> EventData \<Rightarrow> error + string \<times> string" where
  "getReserveRepatriatedAccounts lib d =
     (if isV1 d then Inr (toHex lib (fst (asV1 d)), toHex lib (snd (asV1 d)))
      else if isV3110 d then Inr (toHex lib (fromId (asV3110 d)), toHex lib (toId (asV3110 d)))
      else Inl (UnknownVersionError ''BalancesReserveRepatriatedEvent''))"

text \<open>\<^verbatim>\<open>Set<string>.add\<close>: a JavaScript set keeps its elements in the order of first
  insertion; adding a member again changes nothing.\<close>

definition setAdd :: "string \<Rightarrow> string list \<Rightarrow> string list" where
  "setAdd x xs = (if x \<in> set xs then xs else xs @ [x])"

text \<open>Part_001. The accounts an item touches: the \<^verbatim>\<open>switch (item.name)\<close> of
  \<^verbatim>\<open>processBalancesEventItem\<close> up to the calls of \<^verbatim>\<open>accountIdsHex.add\<close>.\<close>

definition itemAccounts :: "Lib \<Rightarrow> Item \<Rightarrow> error + string list" where
  "itemAccounts lib item =
     (if name item = ''Balances.BalanceSet'' then
        andThen (getBalanceSetAccount lib (event item)) (\<lambda>a. Inr [a])
      else if name item = ''Balances.Endowed'' then
        andThen (getEndowedAccount lib (event item)) (\<lambda>a. Inr [a])
      else if name item = ''Balances.Deposit'' then
        andThen (getDepositAccount lib (event item)) (\<lambda>a. Inr [a])
      else if name item = ''Balances.Reserved'' then
        andThen (getReservedAccount lib (event item)) (\<lambda>a. Inr [a])
      else if name item = ''Balances.Unreserved'' then
        andThen (getUnreservedAccount lib (event item)) (\<lambda>a. Inr [a])
      else if name item = ''Balances.Withdraw'' then
        andThen (getWithdrawAccount lib (event item)) (\<lambda>a. Inr [a])
      else if name item = ''Balances.Slashed'' then
        andThen (getSlashedAccount lib (event item)) (\<lambda>a. Inr [a])
      else if name item = ''Balances.Transfer'' then
        andThen (getTransferAccounts lib (event item)) (\<lambda>p. Inr [fst p, snd p])
      else if name item = ''Balances.ReserveRepatriated'' then
        andThen (getReserveRepatriatedAccounts lib (event item)) (\<lambda>p. Inr [fst p, snd p])
      else Inr [])"

text \<open>\<^verbatim>\<open>processBalancesEventItem\<close> of part_001: the accounts of the item are added to
  the set, in order.\<close>

definition processBalancesEventItem_001 ::
  "Lib \<Rightarrow> Item \<Rightarrow> string list \<Rightarrow> error + string list" where
  "processBalancesEventItem_001 lib item accountIdsHex =
     andThen (itemAccounts lib item) (\<lambda>as. Inr (fold setAdd as accountIdsHex))"

text \<open>
  \<^verbatim>\<open>processBalancesEventItem\<close> of part_000: the same \<^verbatim>\<open>switch\<close>, but none of the nine
  functions it calls is defined or imported in that file, so each of the nine cases stops
  at the call with a ReferenceError. An item of any other name falls through the
  \<^verbatim>\<open>switch\<close> and leaves the set as it is.
\<close>

definition processBalancesEventItem_000 :: "Item \<Rightarrow> string list \<Rightarrow> error + string list" where
  "processBalancesEventItem_000 item accountIdsHex =
     (if name item = ''Balances.BalanceSet'' then Inl ReferenceError
      else if name item = ''Balances.Endowed'' then Inl ReferenceError
      else if name item = ''Balances.Deposit'' then Inl ReferenceError
      else if name item = ''Balances.Reserved'' then Inl ReferenceError
      else if name item = ''Balances.Unreserved'' then Inl ReferenceError
      else if name item = ''Balances.Withdraw'' then Inl ReferenceError
      else if name item = ''Balances.Slashed'' then Inl ReferenceError
      else if name item = ''Balances.Transfer'' then Inl ReferenceError
      else if name item = ''Balances.ReserveRepatriated'' then Inl ReferenceError
      else Inr accountIdsHex)"

text \<open>The names of the nine cases of the \<^verbatim>\<open>switch\<close>.\<close>

definition supportedNames :: "string list" where
  "supportedNames =
     [''Balances.BalanceSet'', ''Balances.Endowed'', ''Balances.Deposit'', ''Balances.Reserved'',
      ''Balances.Unreserved'', ''Balances.Withdraw'', ''Balances.Slashed'', ''Balances.Transfer'',
      ''Balances.ReserveRepatriated'']"

text \<open>\<^verbatim>\<open>for (const item of block.items)\<close> of part_000: every item is dispatched.\<close>

fun processItems_000 :: "Item list \<Rightarrow> string list \<Rightarrow> error + string list" where
  "processItems_000 [] accountIdsHex = Inr accountIdsHex"
| "processItems_000 (item # rest) accountIdsHex =
     andThen (processBalancesEventItem_000 item accountIdsHex)
       (\<lambda>acc. processItems_000 rest acc)"

text \<open>The same loop of part_001: only items of kind \<^verbatim>\<open>"event"\<close> are dispatched.\<close>

fun processItems_001 :: "Lib \<Rightarrow> Item list \<Rightarrow> string list \<Rightarrow> error + string list" where
  "processItems_001 lib [] accountIdsHex = Inr accountIdsHex"
| "processItems_001 lib (item # rest) accountIdsHex =
     (if kind item = ''event'' then
        andThen (processBalancesEventItem_001 lib item accountIdsHex)
          (\<lambda>acc. processItems_001 lib rest acc)
      else processItems_001 lib rest accountIdsHex)"

section \<open>Chain state (\<^verbatim>\<open>src/chainState.ts\<close>)\<close>

text \<open>\<^verbatim>\<open>x || 0\<close> on a number or bigint that may be undefined.\<close>

definition orZero :: "int option \<Rightarrow> int" where
  "orZero x = (case x of None \<Rightarrow> 0 | Some v \<Rightarrow> (if v = 0 then 0 else v))"

definition getTotalIssuance :: "Chain \<Rightarrow> SubstrateBlock \<Rightarrow> error + int option" where
  "getTotalIssuance ch block =
     (if \<not> BalancesTotalIssuanceStorage_isExists ch then Inr None
      else if BalancesTotalIssuanceStorage_isV1 ch then
        andThen (BalancesTotalIssuanceStorage_getAsV1 ch (hash block)) (\<lambda>v. Inr (Some v))
      else Inl (UnknownVersionError ''BalancesTotalIssuanceStorage''))"

definition getChainState :: "Chain \<Rightarrow> Store \<Rightarrow> SubstrateBlock \<Rightarrow> error + ChainState" where
  "getChainState ch st block =
     andThen (getTotalIssuance ch block)
       (\<lambda>issuance. Inr \<lparr>stateId = blockId block, stateTimestamp = timestamp block,
                        blockNumber = height block, totalIssuance = orZero issuance,
                        tokenHolders = store_count st\<rparr>)"

definition saveRegularChainState :: "Chain \<Rightarrow> Store \<Rightarrow> SubstrateBlock \<Rightarrow> error + Store" where
  "saveRegularChainState ch st block =
     andThen (getChainState ch st block) (\<lambda>state. store_insert st state)"

text \<open>
  Modelled from the spec: \<^verbatim>\<open>saveCurrentChainState\<close> is imported by part_000 from
  \<^verbatim>\<open>./chainState\<close>, but the \<^verbatim>\<open>chainState.ts\<close> among the sources does not define it.
  Spec 4.5: "after every window, compute and persist/overwrite the CurrentChainState
  using the last block in the window".
\<close>

definition saveCurrentChainState :: "Chain \<Rightarrow> Store \<Rightarrow> SubstrateBlock \<Rightarrow> error + Store" where
  "saveCurrentChainState ch st block =
     andThen (getChainState ch st block) (\<lambda>state. Inr (st\<lparr>currentChainState := Some state\<rparr>))"

section \<open>The batch handler \<^verbatim>\<open>processBalances\<close>\<close>

definition SAVE_PERIOD :: int where
  "SAVE_PERIOD = 12 * 60 * 60 * 1000"

text \<open>
  Part_000. The module variable \<^verbatim>\<open>lastStateTimestamp\<close> (undefined until first used) is
  passed in and returned. \<open>blocksLoop_000\<close> is \<^verbatim>\<open>for (const block of ctx.blocks)\<close>; its
  state is the store, \<^verbatim>\<open>lastStateTimestamp\<close> and the set \<^verbatim>\<open>accountIdsHex\<close>.
\<close>

fun blocksLoop_000 ::
  "Lib \<Rightarrow> Chain \<Rightarrow> Block list \<Rightarrow> Store \<Rightarrow> int option \<Rightarrow> string list
     \<Rightarrow> error + Store \<times> int option \<times> string list" where
  "blocksLoop_000 lib ch [] st lastStateTimestamp accountIdsHex =
     Inr (st, lastStateTimestamp, accountIdsHex)"
| "blocksLoop_000 lib ch (block # rest) st lastStateTimestamp accountIdsHex =
     andThen (processItems_000 (items block) accountIdsHex)
       (\<lambda>acc.
          let lastTs = (case lastStateTimestamp of
                          None \<Rightarrow> orZero (map_option stateTimestamp (getLastChainState st))
                        | Some t \<Rightarrow> t)
          in if SAVE_PERIOD \<le> timestamp (header block) - lastTs then
               (let accountIdsU8 = map (decodeHex lib) acc;
                    st1 = saveAccounts_000 lib ch st (header block) accountIdsU8
                in andThen (saveRegularChainState ch st1 (header block))
                     (\<lambda>st2. blocksLoop_000 lib ch rest st2 (Some (timestamp (header block))) []))
             else blocksLoop_000 lib ch rest st (Some lastTs) acc)"

text \<open>\<^verbatim>\<open>ctx.blocks[ctx.blocks.length - 1]\<close> is undefined for an empty batch, and reading
  its \<^verbatim>\<open>header\<close> then throws a TypeError.\<close>

definition processBalances_000 ::
  "Lib \<Rightarrow> Chain \<Rightarrow> Block list \<Rightarrow> Store \<Rightarrow> int option \<Rightarrow> error + Store \<times> int option" where
  "processBalances_000 lib ch blocks st lastStateTimestamp =
     andThen (blocksLoop_000 lib ch blocks st lastStateTimestamp [])
       (\<lambda>(st1, lastTs, acc).
          if blocks = [] then Inl TypeError
          else
            (let block = last blocks;
                 accountIdsU8 = map (decodeHex lib) acc;
                 st2 = saveAccounts_000 lib ch st1 (header block) accountIdsU8
             in andThen (saveCurrentChainState ch st2 (header block))
                  (\<lambda>st3. Inr (st3, lastTs))))"

text \<open>Part_001: the loop over the blocks only collects the touched accounts; the
  chain state is saved, then the accounts.\<close>

fun collectBlocks_001 :: "Lib \<Rightarrow> Block list \<Rightarrow> string list \<Rightarrow> error + string list" where
  "collectBlocks_001 lib [] accountIdsHex = Inr accountIdsHex"
| "collectBlocks_001 lib (block # rest) accountIdsHex =
     andThen (processItems_001 lib (items block) accountIdsHex)
       (\<lambda>acc. collectBlocks_001 lib rest acc)"

definition processBalances_001 :: "Lib \<Rightarrow> Chain \<Rightarrow> Block list \<Rightarrow> Store \<Rightarrow> error + Store" where
  "processBalances_001 lib ch blocks st =
     andThen (collectBlocks_001 lib blocks [])
       (\<lambda>acc.
          if blocks = [] then Inl TypeError
          else
            (let block = last blocks;
                 accountIdsU8 = map (decodeHex lib) acc
             in andThen (saveRegularChainState ch st (header block))
                  (\<lambda>st1. saveAccounts_001 lib ch st1 (header block) accountIdsU8)))"

section \<open>The invariant of the account table\<close>

text \<open>A persisted row is well formed when its balances are present, its total is
  their sum, and the total is positive.\<close>

definition accountRowOk :: "Account \<Rightarrow> bool" where
  "accountRowOk a =
     (case (acc_free a, acc_reserved a, totalAmount a) of
        (Some f, Some r, Some t) \<Rightarrow> t = f + r \<and> 0 < t
      | _ \<Rightarrow> False)"

definition accountInvariant :: "Store \<Rightarrow> bool" where
  "accountInvariant st = fmpred (\<lambda>k a. accountRowOk a) (accounts st)"

section \<open>Small instances\<close>

text \<open>Concrete values on which the theorems below are exercised.\<close>

definition demoLib :: Lib where
  "demoLib =
     \<lparr>toHex = (\<lambda>b. CHR ''x'' # map (\<lambda>w. if w = 1 then CHR ''a'' else if w = 2 then CHR ''b'' else CHR ''c'') b),
      decodeHex = (\<lambda>s. map (\<lambda>c. if c = CHR ''a'' then 1 else if c = CHR ''b'' then 2 else 3) (tl s)),
      ss58_encode = (\<lambda>network b. network @ CHR '':'' #
                       map (\<lambda>w. if w = 1 then CHR ''A'' else if w = 2 then CHR ''B'' else CHR ''C'') b)\<rparr>"

text \<open>A chain with both storage items at their known versions, on which account
  \<open>[1]\<close> holds 30 free and 20 reserved and every other account holds nothing.\<close>

definition demoChain :: Chain where
  "demoChain =
     \<lparr>getStorageItemTypeHash =
        (\<lambda>prefix item.
           if prefix = ''System'' \<and> item = ''Account'' then Some SystemAccount_V1
           else if prefix = ''Balances'' \<and> item = ''TotalIssuance'' then Some TotalIssuance_V1
           else None),
      systemAccountAt =
        (\<lambda>blockHash key.
           \<lparr>nonce = 0, consumers = 0, providers = 0,
            data = \<lparr>data_free = (if key = [[1]] then 30 else 0),
                    data_reserved = (if key = [[1]] then 20 else 0),
                    miscFrozen = 0, feeFrozen = 0\<rparr>\<rparr>),
      totalIssuanceAt = (\<lambda>blockHash. 1000)\<rparr>"

text \<open>The same chain at a runtime without any storage item, and at a runtime whose
  \<^verbatim>\<open>System.Account\<close> has a type hash that no decoder knows.\<close>

definition bareChain :: Chain where
  "bareChain = demoChain\<lparr>getStorageItemTypeHash := (\<lambda>prefix item. None)\<rparr>"

definition unknownChain :: Chain where
  "unknownChain =
     demoChain\<lparr>getStorageItemTypeHash :=
       (\<lambda>prefix item. if prefix = ''System'' \<and> item = ''Account'' then Some ''00'' else None)\<rparr>"

definition demoBlock :: SubstrateBlock where
  "demoBlock = \<lparr>blockId = ''0000000007-abcde'', height = 7, hash = ''0xabcde'',
                timestamp = 43200000\<rparr>"

definition emptyStore :: Store where
  "emptyStore = \<lparr>accounts = fmempty, chainStates = [], currentChainState = None\<rparr>"

text \<open>A store that holds one well-formed row, for the account \<open>[2]\<close>.\<close>

definition demoStore :: Store where
  "demoStore =
     \<lparr>accounts = fmupd ''calamari:B''
                   \<lparr>accountId = ''calamari:B'', acc_free = Some 10, acc_reserved = Some 0,
                    totalAmount = Some 10, updatedAt = Some 3\<rparr> fmempty,
      chainStates = [], currentChainState = None\<rparr>"

text \<open>A batch of one block that holds one event, \<^verbatim>\<open>Balances.Endowed\<close> for the account
  \<open>[1]\<close>, decoded at version 1.\<close>

definition noArgs :: V3110Args where
  "noArgs = \<lparr>who = [], account = [], fromId = [], toId = []\<rparr>"

definition endowedItem :: Item where
  "endowedItem =
     \<lparr>kind = ''event'', name = ''Balances.Endowed'',
      event = \<lparr>isV1 = True, isV3100 = False, isV3110 = False,
               asV1 = ([1], []), asV3100 = ([], []), asV3110 = noArgs\<rparr>\<rparr>"

definition demoBatch :: "Block list" where
  "demoBatch = [\<lparr>header = demoBlock, items = [endowedItem]\<rparr>]"

section \<open>The snapshot cadence as the specification words it\<close>

text \<open>
  Spec 4.5: \<^verbatim>\<open>lastSnapshotTimestamp\<close> is "initialized on first use by querying the most
  recent existing ChainState row's timestamp (or zero if none exists)"; a block gets a
  durable snapshot when \<^verbatim>\<open>blockTimestamp - lastSnapshotTimestamp >= snapshotIntervalMs\<close>,
  and then \<^verbatim>\<open>lastSnapshotTimestamp = blockTimestamp\<close>. These definitions follow those
  words, not the code; the code is compared with them below.
\<close>

definition spec_initialTimestamp :: "Store \<Rightarrow> int option \<Rightarrow> int" where
  "spec_initialTimestamp st lastSnapshot =
     (case lastSnapshot of
        Some t \<Rightarrow> t
      | None \<Rightarrow> (if chainStates st = [] then 0 else Max (stateTimestamp ` set (chainStates st))))"

fun spec_snapshots :: "int \<Rightarrow> int \<Rightarrow> SubstrateBlock list \<Rightarrow> SubstrateBlock list" where
  "spec_snapshots interval lastSnapshot [] = []"
| "spec_snapshots interval lastSnapshot (b # bs) =
     (if interval \<le> timestamp b - lastSnapshot then b # spec_snapshots interval (timestamp b) bs
      else spec_snapshots interval lastSnapshot bs)"

fun spec_lastSnapshot :: "int \<Rightarrow> int \<Rightarrow> SubstrateBlock list \<Rightarrow> int" where
  "spec_lastSnapshot interval lastSnapshot [] = lastSnapshot"
| "spec_lastSnapshot interval lastSnapshot (b # bs) =
     (if interval \<le> timestamp b - lastSnapshot then spec_lastSnapshot interval (timestamp b) bs
      else spec_lastSnapshot interval lastSnapshot bs)"

text \<open>Three blocks without events, at 12 hours, 13 hours and 24 hours of chain time.\<close>

definition cadenceBatch :: "Block list" where
  "cadenceBatch =
     [\<lparr>header = \<lparr>blockId = ''b1'', height = 1, hash = ''h1'', timestamp = 43200000\<rparr>, items = []\<rparr>,
      \<lparr>header = \<lparr>blockId = ''b2'', height = 2, hash = ''h2'', timestamp = 46800000\<rparr>, items = []\<rparr>,
      \<lparr>header = \<lparr>blockId = ''b3'', height = 3, hash = ''h3'', timestamp = 86400000\<rparr>, items = []\<rparr>]"

text \<open>What identifies a snapshot row, and the same of the block it is taken for.\<close>

definition rowKey :: "ChainState \<Rightarrow> string \<times> int \<times> nat" where
  "rowKey s = (stateId s, stateTimestamp s, blockNumber s)"

definition blockKey :: "SubstrateBlock \<Rightarrow> string \<times> int \<times> nat" where
  "blockKey b = (blockId b, timestamp b, height b)"

text \<open>For the statements about accumulation: the accounts that a list of items touches,
  in the order in which \<^verbatim>\<open>processBalancesEventItem\<close> of part_001 adds them, and the
  events of a batch as the loops of part_001 visit them.\<close>

definition touchedSeq :: "Lib \<Rightarrow> Item list \<Rightarrow> string list" where
  "touchedSeq lib its =
     concat (map (\<lambda>item. case itemAccounts lib item of Inl e \<Rightarrow> [] | Inr as \<Rightarrow> as) its)"

definition windowEvents :: "Block list \<Rightarrow> Item list" where
  "windowEvents blocks = filter (\<lambda>item. kind item = ''event'') (concat (map items blocks))"

text \<open>A transfer from \<open>[1]\<close> to \<open>[2]\<close> decoded at version 3110, and a reservation on
  \<open>[2]\<close> decoded at version 1.\<close>

definition transferItem :: Item where
  "transferItem =
     \<lparr>kind = ''event'', name = ''Balances.Transfer'',
      event = \<lparr>isV1 = False, isV3100 = False, isV3110 = True,
               asV1 = ([], []), asV3100 = ([], []),
               asV3110 = \<lparr>who = [], account = [], fromId = [1], toId = [2]\<rparr>\<rparr>\<rparr>"

definition reservedItem :: Item where
  "reservedItem =
     \<lparr>kind = ''event'', name = ''Balances.Reserved'',
      event = \<lparr>isV1 = True, isV3100 = False, isV3110 = False,
               asV1 = ([2], []), asV3100 = ([], []), asV3110 = noArgs\<rparr>\<rparr>"

text \<open>Two batches that touch the accounts \<open>[1]\<close> and \<open>[2]\<close>: one block with three
  events, and two blocks with one event each, in the other order.\<close>

definition windowA :: "Block list" where
  "windowA = [\<lparr>header = demoBlock, items = [endowedItem, transferItem, endowedItem]\<rparr>]"

definition windowB :: "Block list" where
  "windowB = [\<lparr>header = demoBlock, items = [reservedItem]\<rparr>,
              \<lparr>header = demoBlock, items = [endowedItem]\<rparr>]"

text \<open>A store whose last durable snapshot was taken at block 275940, and a batch of one
  block without events, 12 seconds of chain time later.\<close>

definition snapshotStore :: Store where
  "snapshotStore =
     \<lparr>accounts = fmempty,
      chainStates = [\<lparr>stateId = ''0000275940-aaaaa'', stateTimestamp = 1666733000000,
                      blockNumber = 275940, totalIssuance = 1000, tokenHolders = 0\<rparr>],
      currentChainState = None\<rparr>"

definition lateBlock :: SubstrateBlock where
  "lateBlock = \<lparr>blockId = ''0000275941-bbbbb'', height = 275941, hash = ''0xbbbbb'',
                timestamp = 1666733012000\<rparr>"

definition lateBatch :: "Block list" where
  "lateBatch = [\<lparr>header = lateBlock, items = []\<rparr>]"

section \<open>Basic facts\<close>

lemma andThen_simps [simp]:
  "andThen (Inl e) f = Inl e"
  "andThen (Inr x) f = f x"
  by (simp_all add: andThen_def)

lemma andThen_eq_Inr:
  "andThen r f = Inr y \<longleftrightarrow> (\<exists>x. r = Inr x \<and> f x = Inr y)"
  by (cases r) simp_all

section \<open>The reconciliation loop\<close>

lemma set_update_cases:
  "(k', r) \<in> set (AList.update k v al) \<Longrightarrow> (k', r) = (k, v) \<or> (k', r) \<in> set al"
  by (induction al) (auto split: if_splits)

lemma step_upsert_keys:
  "fst ` set (fst (saveAccountsStep h k bal maps)) =
     (if \<exists>b. bal = Some b \<and> 0 < free b + reserved b then insert k (fst ` set (fst maps))
      else fst ` set (fst maps))"
  by (cases bal) (simp_all add: saveAccountsStep_def Let_def dom_update)

lemma step_deletion_keys:
  "fst ` set (snd (saveAccountsStep h k bal maps)) =
     (if \<exists>b. bal = Some b \<and> \<not> 0 < free b + reserved b then insert k (fst ` set (snd maps))
      else fst ` set (snd maps))"
  by (cases bal) (simp_all add: saveAccountsStep_def Let_def dom_update)

lemma step_upsert_entry:
  assumes "(k', r) \<in> set (fst (saveAccountsStep h k bal maps))"
  shows "(k', r) \<in> set (fst maps)
       \<or> (\<exists>b. bal = Some b \<and> 0 < free b + reserved b \<and> k' = k
              \<and> r = newAccount k b (free b + reserved b) h)"
proof (cases bal)
  case None
  with assms show ?thesis by (simp add: saveAccountsStep_def)
next
  case (Some b)
  show ?thesis
  proof (cases "0 < free b + reserved b")
    case True
    with Some assms
    have "(k', r) \<in> set (AList.update k (newAccount k b (free b + reserved b) h) (fst maps))"
      by (simp add: saveAccountsStep_def Let_def)
    from set_update_cases [OF this] Some True show ?thesis by auto
  next
    case False
    with Some assms show ?thesis by (simp add: saveAccountsStep_def Let_def)
  qed
qed

lemma step_deletion_entry:
  assumes "(k', r) \<in> set (snd (saveAccountsStep h k bal maps))"
  shows "(k', r) \<in> set (snd maps) \<or> (k' = k \<and> r = newAccountId k)"
proof (cases bal)
  case None
  with assms show ?thesis by (simp add: saveAccountsStep_def)
next
  case (Some b)
  show ?thesis
  proof (cases "0 < free b + reserved b")
    case True
    with Some assms show ?thesis by (simp add: saveAccountsStep_def Let_def)
  next
    case False
    with Some assms
    have "(k', r) \<in> set (AList.update k (newAccountId k) (snd maps))"
      by (simp add: saveAccountsStep_def Let_def)
    from set_update_cases [OF this] show ?thesis by auto
  qed
qed

lemma step_distinct:
  "distinct (map fst (fst maps)) \<Longrightarrow> distinct (map fst (fst (saveAccountsStep h k bal maps)))"
  "distinct (map fst (snd maps)) \<Longrightarrow> distinct (map fst (snd (saveAccountsStep h k bal maps)))"
  by (cases bal; simp add: saveAccountsStep_def Let_def distinct_update)+

lemma saveAccountsLoop_fold:
  "saveAccountsLoop lib h ids bs i maps =
     fold (\<lambda>j. saveAccountsStep h (encodeId lib (ids ! j)) (balanceAt bs j)) [i..<length ids] maps"
proof (induction lib h ids bs i maps rule: saveAccountsLoop.induct)
  case (1 lib h ids bs i maps)
  show ?case
  proof (cases "i < length ids")
    case True
    then show ?thesis
      using "1.IH" by (subst saveAccountsLoop.simps) (simp add: upt_conv_Cons)
  next
    case False
    then show ?thesis by (subst saveAccountsLoop.simps) simp
  qed
qed

lemma saveAccountsLoop_prefix:
  "saveAccountsLoop lib h ids bs 0 ([], []) = loopPrefix lib h ids bs (length ids)"
  by (simp add: saveAccountsLoop_fold loopPrefix_def)

lemma loopPrefix_0: "loopPrefix lib h ids bs 0 = ([], [])"
  by (simp add: loopPrefix_def)

lemma loopPrefix_Suc:
  "loopPrefix lib h ids bs (Suc n) =
     saveAccountsStep h (encodeId lib (ids ! n)) (balanceAt bs n) (loopPrefix lib h ids bs n)"
  by (simp add: loopPrefix_def)

lemma prefix_upsert_keys:
  "fst ` set (fst (loopPrefix lib h ids bs n)) =
     {encodeId lib (ids ! j) | j b. j < n \<and> balanceAt bs j = Some b \<and> 0 < free b + reserved b}"
proof (induction n)
  case 0
  show ?case by (simp add: loopPrefix_0)
next
  case (Suc n)
  show ?case
    unfolding loopPrefix_Suc step_upsert_keys Suc.IH
    by (auto simp: less_Suc_eq)
qed

lemma prefix_deletion_keys:
  "fst ` set (snd (loopPrefix lib h ids bs n)) =
     {encodeId lib (ids ! j) | j b. j < n \<and> balanceAt bs j = Some b \<and> \<not> 0 < free b + reserved b}"
proof (induction n)
  case 0
  show ?case by (simp add: loopPrefix_0)
next
  case (Suc n)
  show ?case
    unfolding loopPrefix_Suc step_deletion_keys Suc.IH
    by (auto simp: less_Suc_eq)
qed

lemma prefix_upsert_entry:
  "(k, r) \<in> set (fst (loopPrefix lib h ids bs n)) \<Longrightarrow>
     \<exists>j b. j < n \<and> balanceAt bs j = Some b \<and> 0 < free b + reserved b
         \<and> k = encodeId lib (ids ! j) \<and> r = newAccount k b (free b + reserved b) h"
proof (induction n)
  case 0
  then show ?case by (simp add: loopPrefix_0)
next
  case (Suc n)
  from Suc.prems have "(k, r) \<in> set (fst (loopPrefix lib h ids bs n))
       \<or> (\<exists>b. balanceAt bs n = Some b \<and> 0 < free b + reserved b \<and> k = encodeId lib (ids ! n)
              \<and> r = newAccount (encodeId lib (ids ! n)) b (free b + reserved b) h)"
    unfolding loopPrefix_Suc by (rule step_upsert_entry)
  then show ?case
  proof
    assume "(k, r) \<in> set (fst (loopPrefix lib h ids bs n))"
    from Suc.IH [OF this] show ?thesis using less_Suc_eq by blast
  next
    assume "\<exists>b. balanceAt bs n = Some b \<and> 0 < free b + reserved b \<and> k = encodeId lib (ids ! n)
              \<and> r = newAccount (encodeId lib (ids ! n)) b (free b + reserved b) h"
    then show ?thesis by blast
  qed
qed

lemma prefix_deletion_entry:
  "(k, r) \<in> set (snd (loopPrefix lib h ids bs n)) \<Longrightarrow> r = newAccountId k"
proof (induction n)
  case 0
  then show ?case by (simp add: loopPrefix_0)
next
  case (Suc n)
  from Suc.prems have "(k, r) \<in> set (snd (loopPrefix lib h ids bs n))
       \<or> (k = encodeId lib (ids ! n) \<and> r = newAccountId (encodeId lib (ids ! n)))"
    unfolding loopPrefix_Suc by (rule step_deletion_entry)
  then show ?case using Suc.IH by blast
qed

lemma prefix_distinct:
  "distinct (map fst (fst (loopPrefix lib h ids bs n)))"
  "distinct (map fst (snd (loopPrefix lib h ids bs n)))"
  by (induction n) (simp_all add: loopPrefix_0 loopPrefix_Suc step_distinct)

lemma fold_fmupd_lookup:
  "distinct (map fst al) \<Longrightarrow> \<forall>(k, r) \<in> set al. accountId r = k \<Longrightarrow>
   fmlookup (fold (\<lambda>e m. fmupd (accountId e) e m) (map snd al) m) k =
     (case map_of al k of Some r \<Rightarrow> Some r | None \<Rightarrow> fmlookup m k)"
proof (induction al arbitrary: m)
  case Nil
  then show ?case by simp
next
  case (Cons p al)
  obtain k0 r0 where p: "p = (k0, r0)" by (cases p)
  from Cons.prems p have k0: "accountId r0 = k0" "k0 \<notin> fst ` set al" by auto
  then have "map_of al k0 = None" by (simp add: map_of_eq_None_iff)
  with Cons p k0 show ?case by (auto split: option.splits)
qed

lemma fold_fmdrop_lookup:
  "fmlookup (fold (\<lambda>e m. fmdrop (accountId e) m) es m) k =
     (if k \<in> accountId ` set es then None else fmlookup m k)"
  by (induction es arbitrary: m) auto

lemma deletion_ids:
  "accountId ` set (map snd (snd (loopPrefix lib h ids bs n))) = fst ` set (snd (loopPrefix lib h ids bs n))"
proof -
  have "accountId (snd p) = fst p" if "p \<in> set (snd (loopPrefix lib h ids bs n))" for p
    using prefix_deletion_entry [of "fst p" "snd p" lib h ids bs n] that
    by (simp add: newAccountId_def)
  then show ?thesis by (auto simp: image_iff) force
qed

lemma upsert_ids:
  "\<forall>(k, r) \<in> set (fst (loopPrefix lib h ids bs n)). accountId r = k"
proof clarify
  fix k r assume "(k, r) \<in> set (fst (loopPrefix lib h ids bs n))"
  from prefix_upsert_entry [OF this] show "accountId r = k"
    by (auto simp: newAccount_def)
qed

lemma lookup_saveAccountsWith:
  "fmlookup (accounts (saveAccountsWith lib st block ids (Some bs))) k =
     (if k \<in> fst ` set (snd (loopPrefix lib (height block) ids bs (length ids))) then None
      else case map_of (fst (loopPrefix lib (height block) ids bs (length ids))) k of
             Some r \<Rightarrow> Some r
           | None \<Rightarrow> fmlookup (accounts st) k)"
  unfolding saveAccountsWith_def option.case Let_def saveAccountsLoop_prefix
  by (simp add: store_remove_def store_save_def fold_fmdrop_lookup deletion_ids
      fold_fmupd_lookup [OF prefix_distinct(1) upsert_ids] del: set_map)


section \<open>Reconciliation against the store\<close>

lemma saveAccountsWith_None [simp]: "saveAccountsWith lib st block ids None = st"
  by (simp add: saveAccountsWith_def)

lemma saveAccountsWith_frame:
  "chainStates (saveAccountsWith lib st block ids balances) = chainStates st"
  "currentChainState (saveAccountsWith lib st block ids balances) = currentChainState st"
  by (cases balances; simp add: saveAccountsWith_def store_remove_def store_save_def Let_def)+

lemma saveAccountsWith_unobserved:
  assumes "\<forall>j<length ids. encodeId lib (ids ! j) = k \<longrightarrow> balanceAt bs j = None"
  shows "fmlookup (accounts (saveAccountsWith lib st block ids (Some bs))) k = fmlookup (accounts st) k"
proof -
  let ?maps = "loopPrefix lib (height block) ids bs (length ids)"
  have d: "k \<notin> fst ` set (snd ?maps)"
    using assms unfolding prefix_deletion_keys by auto
  have "k \<notin> fst ` set (fst ?maps)"
    using assms unfolding prefix_upsert_keys by auto
  then have "map_of (fst ?maps) k = None"
    by (simp add: map_of_eq_None_iff)
  with d show ?thesis by (simp add: lookup_saveAccountsWith)
qed

lemma saveAccountsWith_deleted:
  assumes "i < length ids" "balanceAt bs i = Some b" "\<not> 0 < free b + reserved b"
  shows "fmlookup (accounts (saveAccountsWith lib st block ids (Some bs))) (encodeId lib (ids ! i)) = None"
proof -
  have "encodeId lib (ids ! i) \<in> fst ` set (snd (loopPrefix lib (height block) ids bs (length ids)))"
    unfolding prefix_deletion_keys using assms by blast
  then show ?thesis by (simp add: lookup_saveAccountsWith)
qed

lemma saveAccountsWith_row_cases:
  assumes "fmlookup (accounts (saveAccountsWith lib st block ids (Some bs))) k = Some r"
  shows "fmlookup (accounts st) k = Some r
       \<or> (\<exists>j b. j < length ids \<and> balanceAt bs j = Some b \<and> 0 < free b + reserved b
              \<and> k = encodeId lib (ids ! j)
              \<and> r = newAccount k b (free b + reserved b) (height block))"
proof -
  let ?maps = "loopPrefix lib (height block) ids bs (length ids)"
  from assms have nd: "k \<notin> fst ` set (snd ?maps)"
    by (auto simp: lookup_saveAccountsWith split: if_splits)
  show ?thesis
  proof (cases "map_of (fst ?maps) k")
    case None
    with assms nd show ?thesis by (simp add: lookup_saveAccountsWith)
  next
    case (Some r')
    with assms nd have "r' = r" by (simp add: lookup_saveAccountsWith)
    with Some have "(k, r) \<in> set (fst ?maps)" by (simp add: map_of_SomeD)
    from prefix_upsert_entry [OF this] show ?thesis by blast
  qed
qed

lemma saveAccountsWith_uniform:
  assumes i: "i < length ids" and b: "balanceAt bs i = Some b"
    and same: "\<forall>j<length ids. encodeId lib (ids ! j) = encodeId lib (ids ! i) \<longrightarrow> balanceAt bs j = Some b"
  shows "fmlookup (accounts (saveAccountsWith lib st block ids (Some bs))) (encodeId lib (ids ! i)) =
           (if 0 < free b + reserved b
            then Some (newAccount (encodeId lib (ids ! i)) b (free b + reserved b) (height block))
            else None)"
proof (cases "0 < free b + reserved b")
  case False
  with saveAccountsWith_deleted [OF i b] show ?thesis by simp
next
  case True
  let ?k = "encodeId lib (ids ! i)"
  let ?maps = "loopPrefix lib (height block) ids bs (length ids)"
  have nd: "?k \<notin> fst ` set (snd ?maps)"
    unfolding prefix_deletion_keys using same True by auto
  have "?k \<in> fst ` set (fst ?maps)"
    unfolding prefix_upsert_keys using i b True by blast
  then obtain r where r: "map_of (fst ?maps) ?k = Some r"
    by (metis domD dom_map_of_conv_image_fst)
  then have "(?k, r) \<in> set (fst ?maps)" by (simp add: map_of_SomeD)
  from prefix_upsert_entry [OF this] obtain j b' where
    j: "j < length ids" "balanceAt bs j = Some b'" "?k = encodeId lib (ids ! j)"
       "r = newAccount ?k b' (free b' + reserved b') (height block)"
    by blast
  with same have "b' = b" by auto
  with j r nd True show ?thesis by (simp add: lookup_saveAccountsWith)
qed

lemma newAccount_ok: "0 < free b + reserved b \<Longrightarrow> accountRowOk (newAccount k b (free b + reserved b) h)"
  by (simp add: accountRowOk_def newAccount_def)

lemma saveAccountsWith_invariant:
  assumes "accountInvariant st"
  shows "accountInvariant (saveAccountsWith lib st block ids balances)"
proof (cases balances)
  case None
  with assms show ?thesis by simp
next
  case (Some bs)
  show ?thesis
    unfolding accountInvariant_def fmpred_iff Some
  proof (intro allI impI)
    fix k r
    assume "fmlookup (accounts (saveAccountsWith lib st block ids (Some bs))) k = Some r"
    from saveAccountsWith_row_cases [OF this] assms show "accountRowOk r"
      by (auto simp: accountInvariant_def fmpred_iff newAccount_ok)
  qed
qed

lemma getBalances_001_Inr:
  "getBalances_001 ch block ids = Inr x \<Longrightarrow> getBalances_000 ch block ids = x"
  by (auto simp: getBalances_001_def getBalances_000_def getSystemAccountBalances_001_def
      getSystemAccountBalances_000_def SystemAccountStorage_getManyAsV1_def
      SystemAccountStorage_getManyAsV3_def split: if_splits)

lemma saveAccounts_001_Inr:
  "saveAccounts_001 lib ch st block ids = Inr st' \<Longrightarrow> st' = saveAccounts_000 lib ch st block ids"
  by (auto simp: saveAccounts_001_def saveAccounts_000_def andThen_eq_Inr dest: getBalances_001_Inr)

lemma getBalances_000_Some:
  "getBalances_000 ch block ids = Some bs \<Longrightarrow>
     bs = map (\<lambda>a. Some (toBalance (systemAccountAt ch (hash block) [a]))) ids"
  by (auto simp: getBalances_000_def getSystemAccountBalances_000_def queryStorage_def
      comp_def split: if_splits)

section \<open>The small instances evaluated\<close>

lemma demoStore_ok: "accountInvariant demoStore"
  by (simp add: accountInvariant_def fmpred_iff demoStore_def accountRowOk_def split: if_splits)

lemma demo_maps:
  "saveAccountsLoop demoLib 7 [[1], [2]] [Some \<lparr>free = 30, reserved = 20\<rparr>, Some \<lparr>free = 0, reserved = 0\<rparr>] 0 ([], [])
   = ([(''calamari:A'', newAccount ''calamari:A'' \<lparr>free = 30, reserved = 20\<rparr> 50 7)],
      [(''calamari:B'', newAccountId ''calamari:B'')])"
  by (simp add: saveAccountsLoop.simps saveAccountsStep_def balanceAt_def encodeId_def demoLib_def)

lemma demo_fetch:
  "getBalances_000 demoChain demoBlock [[1], [2]] = Some [Some \<lparr>free = 30, reserved = 20\<rparr>, Some \<lparr>free = 0, reserved = 0\<rparr>]"
  by (simp add: getBalances_000_def getSystemAccountBalances_000_def SystemAccountStorage_isExists_def
      demoChain_def queryStorage_def toBalance_def)

lemma demo_save:
  "saveAccounts_000 demoLib demoChain demoStore demoBlock [[1], [2]] =
     \<lparr>accounts = fmupd ''calamari:A'' (newAccount ''calamari:A'' \<lparr>free = 30, reserved = 20\<rparr> 50 7) fmempty,
      chainStates = [], currentChainState = None\<rparr>"
proof -
  have h: "height demoBlock = 7" by (simp add: demoBlock_def)
  show ?thesis
    apply (simp add: saveAccounts_000_def demo_fetch saveAccountsWith_def h demo_maps store_save_def store_remove_def demoStore_def newAccount_def newAccountId_def)
    apply (rule fmap_ext)
    apply simp
    done
qed

lemma balanceAt_map:
  "i < length ids \<Longrightarrow> balanceAt (map (\<lambda>a. Some (f a)) ids) i = Some (f (ids ! i))"
  by (simp add: balanceAt_def)

lemma saveAccounts_000_fetched:
  assumes fetch: "getBalances_000 ch block ids = Some bs"
    and inj: "inj_on (encodeId lib) (set ids)" and a: "a \<in> set ids"
  shows "fmlookup (accounts (saveAccounts_000 lib ch st block ids)) (encodeId lib a) =
           (let b = toBalance (systemAccountAt ch (hash block) [a]) in
            if 0 < free b + reserved b
            then Some (newAccount (encodeId lib a) b (free b + reserved b) (height block))
            else None)"
proof -
  let ?f = "\<lambda>a. toBalance (systemAccountAt ch (hash block) [a])"
  have bs: "bs = map (\<lambda>a. Some (?f a)) ids"
    using fetch by (rule getBalances_000_Some)
  from a obtain i where i: "i < length ids" "ids ! i = a"
    by (auto simp: in_set_conv_nth)
  have at: "balanceAt bs j = Some (?f (ids ! j))" if "j < length ids" for j
    unfolding bs using that by (rule balanceAt_map)
  have same: "\<forall>j<length ids. encodeId lib (ids ! j) = encodeId lib (ids ! i) \<longrightarrow> balanceAt bs j = Some (?f a)"
  proof (intro allI impI)
    fix j assume j: "j < length ids" and "encodeId lib (ids ! j) = encodeId lib (ids ! i)"
    with inj i have "ids ! j = a" by (auto dest: inj_onD)
    with at [OF j] show "balanceAt bs j = Some (?f a)" by simp
  qed
  have "balanceAt bs i = Some (?f a)" using at [OF i(1)] i(2) by simp
  from saveAccountsWith_uniform [OF i(1) this same, of st block] i(2) fetch
  show ?thesis by (simp add: saveAccounts_000_def Let_def)
qed

lemma demo_inj: "inj_on (encodeId demoLib) (set [[1], [2]])"
  by (simp add: encodeId_def demoLib_def)

lemma demo_info:
  "data_free (data (systemAccountAt demoChain (hash demoBlock) [[1]])) = 30"
  "data_reserved (data (systemAccountAt demoChain (hash demoBlock) [[1]])) = 20"
  "data_free (data (systemAccountAt demoChain (hash demoBlock) [[2]])) = 0"
  "data_reserved (data (systemAccountAt demoChain (hash demoBlock) [[2]])) = 0"
  by (simp_all add: demoChain_def)

lemma demo_maps_short:
  "saveAccountsLoop demoLib 7 [[1], [2]] [Some \<lparr>free = 30, reserved = 20\<rparr>] 0 ([], [])
   = ([(''calamari:A'', newAccount ''calamari:A'' \<lparr>free = 30, reserved = 20\<rparr> 50 7)], [])"
  by (simp add: saveAccountsLoop.simps saveAccountsStep_def balanceAt_def encodeId_def demoLib_def)

lemma demo_ids:
  "encodeId demoLib [1] = ''calamari:A''" "encodeId demoLib [2] = ''calamari:B''"
  by (simp_all add: encodeId_def demoLib_def)

lemma demoBlock_simps:
  "height demoBlock = 7" "hash demoBlock = ''0xabcde''" "timestamp demoBlock = 43200000"
  "blockId demoBlock = ''0000000007-abcde''"
  by (simp_all add: demoBlock_def)

section \<open>Chain state and versions\<close>

lemma getTotalIssuance_cases:
  "getTotalIssuance ch block =
     (case getStorageItemTypeHash ch ''Balances'' ''TotalIssuance'' of
        None \<Rightarrow> Inr None
      | Some h \<Rightarrow> if h = TotalIssuance_V1 then Inr (Some (totalIssuanceAt ch (hash block)))
                  else Inl (UnknownVersionError ''BalancesTotalIssuanceStorage''))"
  by (simp add: getTotalIssuance_def BalancesTotalIssuanceStorage_isExists_def
      BalancesTotalIssuanceStorage_isV1_def BalancesTotalIssuanceStorage_getAsV1_def
      getStorage_def split: option.splits)

lemma orZero_simps [simp]: "orZero None = 0" "orZero (Some v) = v"
  by (simp_all add: orZero_def)

lemma demo_count: "store_count demoStore = 1"
  by (simp add: store_count_def demoStore_def fcard_finsert_if)

lemma demo_issuance:
  "getStorageItemTypeHash demoChain ''Balances'' ''TotalIssuance'' = Some TotalIssuance_V1"
  "getStorageItemTypeHash demoChain ''System'' ''Account'' = Some SystemAccount_V1"
  "totalIssuanceAt demoChain h = 1000"
  by (simp_all add: demoChain_def)

lemma demo_getChainState:
  "getChainState demoChain st demoBlock =
     Inr \<lparr>stateId = ''0000000007-abcde'', stateTimestamp = 43200000, blockNumber = 7,
          totalIssuance = 1000, tokenHolders = store_count st\<rparr>"
  by (simp add: getChainState_def getTotalIssuance_cases demo_issuance demoBlock_simps)

lemma unknown_hash:
  "getStorageItemTypeHash unknownChain ''System'' ''Account'' = Some ''00''"
  "''00'' \<noteq> SystemAccount_V1" "''00'' \<noteq> SystemAccount_V3"
  by (simp_all add: unknownChain_def SystemAccount_V1_def SystemAccount_V3_def)

lemma unknown_event_version:
  assumes "\<not> isV1 d" "\<not> isV3100 d" "\<not> isV3110 d"
  shows "getBalanceSetAccount lib d = Inl (UnknownVersionError ''BalancesBalanceSetEvent'')"
    and "getTransferAccounts lib d = Inl (UnknownVersionError ''BalancesTransferEvent'')"
    and "getEndowedAccount lib d = Inl (UnknownVersionError ''BalancesEndowedEvent'')"
    and "getDepositAccount lib d = Inl (UnknownVersionError ''BalancesDepositEvent'')"
    and "getReservedAccount lib d = Inl (UnknownVersionError ''BalancesReservedEvent'')"
    and "getUnreservedAccount lib d = Inl (UnknownVersionError ''BalancesUnreservedEvent'')"
    and "getWithdrawAccount lib d = Inl (UnknownVersionError ''BalancesWithdrawEvent'')"
    and "getSlashedAccount lib d = Inl (UnknownVersionError ''BalancesSlashedEvent'')"
    and "getReserveRepatriatedAccounts lib d = Inl (UnknownVersionError ''BalancesReserveRepatriatedEvent'')"
  using assms
  by (simp_all add: getBalanceSetAccount_def getTransferAccounts_def getEndowedAccount_def
      getDepositAccount_def getReservedAccount_def getUnreservedAccount_def getWithdrawAccount_def
      getSlashedAccount_def getReserveRepatriatedAccounts_def)

lemma unknown_issuance_version:
  assumes "getStorageItemTypeHash ch ''Balances'' ''TotalIssuance'' = Some h" "h \<noteq> TotalIssuance_V1"
  shows "getTotalIssuance ch block = Inl (UnknownVersionError ''BalancesTotalIssuanceStorage'')"
    and "getChainState ch st block = Inl (UnknownVersionError ''BalancesTotalIssuanceStorage'')"
    and "saveRegularChainState ch st block = Inl (UnknownVersionError ''BalancesTotalIssuanceStorage'')"
  using assms by (simp_all add: getTotalIssuance_cases getChainState_def saveRegularChainState_def)

lemma demo_collect: "collectBlocks_001 demoLib demoBatch [] = Inr [''xa'']"
  by (simp add: demoBatch_def endowedItem_def processBalancesEventItem_001_def itemAccounts_def
      getEndowedAccount_def setAdd_def demoLib_def)

lemma demo_fetch_one:
  "getBalances_001 demoChain demoBlock [[1]] = Inr (Some [Some \<lparr>free = 30, reserved = 20\<rparr>])"
  by (simp add: getBalances_001_def getSystemAccountBalances_001_def SystemAccountStorage_isExists_def
      SystemAccountStorage_isV1_def SystemAccountStorage_getManyAsV1_def demo_issuance
      queryStorage_def toBalance_def demo_info demoBlock_simps [symmetric])

lemma demo_loop_one:
  "saveAccountsLoop demoLib 7 [[1]] [Some \<lparr>free = 30, reserved = 20\<rparr>] 0 ([], [])
     = ([(''calamari:A'', newAccount ''calamari:A'' \<lparr>free = 30, reserved = 20\<rparr> 50 7)], [])"
  by (simp add: saveAccountsLoop.simps saveAccountsStep_def balanceAt_def demo_ids)

section \<open>The block loop of part_000\<close>

lemma fold_latest_timestamp:
  "stateTimestamp (fold (\<lambda>x best. if stateTimestamp best < stateTimestamp x then x else best) rs r)
     = fold max (map stateTimestamp rs) (stateTimestamp r)"
  by (induction rs arbitrary: r) (auto simp: max_def)

lemma getLastChainState_latest:
  "orZero (map_option stateTimestamp (getLastChainState st)) =
     (if chainStates st = [] then 0 else Max (stateTimestamp ` set (chainStates st)))"
proof (cases "chainStates st")
  case Nil
  then show ?thesis by (simp add: getLastChainState_def)
next
  case (Cons r rs)
  have "Max (stateTimestamp ` set (r # rs)) = fold max (map stateTimestamp rs) (stateTimestamp r)"
    using Max.set_eq_fold [of "stateTimestamp r" "map stateTimestamp rs"] by simp
  with Cons show ?thesis
    by (simp add: getLastChainState_def fold_latest_timestamp)
qed

lemma initial_timestamp:
  "(case lastTs of None \<Rightarrow> orZero (map_option stateTimestamp (getLastChainState st)) | Some t \<Rightarrow> t)
     = spec_initialTimestamp st lastTs"
  by (simp add: spec_initialTimestamp_def getLastChainState_latest split: option.splits)

lemma saveRegularChainState_Inr:
  assumes "saveRegularChainState ch st block = Inr st'"
  shows "\<exists>row. chainStates st' = chainStates st @ [row] \<and> stateId row = blockId block
           \<and> stateTimestamp row = timestamp block \<and> blockNumber row = height block
           \<and> tokenHolders row = store_count st
           \<and> accounts st' = accounts st \<and> currentChainState st' = currentChainState st"
  using assms
  by (auto simp: saveRegularChainState_def getChainState_def andThen_eq_Inr store_insert_def
      split: if_splits)

lemma saveRegularChainState_returns:
  assumes "getStorageItemTypeHash ch ''Balances'' ''TotalIssuance'' \<in> {None, Some TotalIssuance_V1}"
    and "blockId block \<notin> stateId ` set (chainStates st)"
  shows "\<exists>st'. saveRegularChainState ch st block = Inr st'"
  using assms
  by (auto simp: saveRegularChainState_def getChainState_def getTotalIssuance_cases store_insert_def
      split: option.splits)

lemma blocksLoop_000_not_due:
  assumes "processItems_000 (items b) acc = Inr acc1"
    and "\<not> SAVE_PERIOD \<le> timestamp (header b) - spec_initialTimestamp st lastTs"
  shows "blocksLoop_000 lib ch (b # rest) st lastTs acc =
           blocksLoop_000 lib ch rest st (Some (spec_initialTimestamp st lastTs)) acc1"
  using assms by (simp add: initial_timestamp Let_def)

lemma blocksLoop_000_due:
  assumes "processItems_000 (items b) acc = Inr acc1"
    and "SAVE_PERIOD \<le> timestamp (header b) - spec_initialTimestamp st lastTs"
    and "saveRegularChainState ch (saveAccounts_000 lib ch st (header b) (map (decodeHex lib) acc1))
           (header b) = Inr st2"
  shows "blocksLoop_000 lib ch (b # rest) st lastTs acc =
           blocksLoop_000 lib ch rest st2 (Some (timestamp (header b))) []"
    and "tokenHolders (last (chainStates st2)) =
           store_count (saveAccounts_000 lib ch st (header b) (map (decodeHex lib) acc1))"
    and "accounts st2 = accounts (saveAccounts_000 lib ch st (header b) (map (decodeHex lib) acc1))"
  using assms saveRegularChainState_Inr [OF assms(3)]
  by (auto simp: initial_timestamp Let_def)

lemma saveAccounts_000_frame:
  "chainStates (saveAccounts_000 lib ch st block ids) = chainStates st"
  "currentChainState (saveAccounts_000 lib ch st block ids) = currentChainState st"
  by (simp_all add: saveAccounts_000_def saveAccountsWith_frame)

lemma processBalancesEventItem_000_cases:
  "processBalancesEventItem_000 item acc =
     (if name item \<in> set supportedNames then Inl ReferenceError else Inr acc)"
  by (simp add: processBalancesEventItem_000_def supportedNames_def)

lemma processItems_000_Inr:
  "processItems_000 its acc = Inr acc' \<longleftrightarrow>
     acc' = acc \<and> (\<forall>item\<in>set its. name item \<notin> set supportedNames)"
  by (induction its arbitrary: acc) (auto simp: processBalancesEventItem_000_cases)

lemma processItems_000_returns:
  "\<forall>item\<in>set its. name item \<notin> set supportedNames \<Longrightarrow>
     \<exists>acc'. processItems_000 its acc = Inr acc'"
  by (simp add: processItems_000_Inr)

lemma blocksLoop_000_returns:
  assumes "\<forall>b\<in>set blocks. \<forall>item\<in>set (items b). name item \<notin> set supportedNames"
    and "getStorageItemTypeHash ch ''Balances'' ''TotalIssuance'' \<in> {None, Some TotalIssuance_V1}"
    and "distinct (map (\<lambda>b. blockId (header b)) blocks)"
    and "\<forall>b\<in>set blocks. blockId (header b) \<notin> stateId ` set (chainStates st)"
  shows "\<exists>r. blocksLoop_000 lib ch blocks st lastTs acc = Inr r"
  using assms
proof (induction blocks arbitrary: st lastTs acc)
  case Nil
  show ?case by simp
next
  case (Cons b rest)
  from Cons.prems(1) obtain acc1 where acc1: "processItems_000 (items b) acc = Inr acc1"
    using processItems_000_returns [of "items b" acc] by auto
  have rest1: "\<forall>b\<in>set rest. \<forall>item\<in>set (items b). name item \<notin> set supportedNames"
    and rest3: "distinct (map (\<lambda>b. blockId (header b)) rest)"
    using Cons.prems by simp_all
  show ?case
  proof (cases "SAVE_PERIOD \<le> timestamp (header b) - spec_initialTimestamp st lastTs")
    case False
    have "\<forall>b\<in>set rest. blockId (header b) \<notin> stateId ` set (chainStates st)"
      using Cons.prems(4) by simp
    from Cons.IH [OF rest1 Cons.prems(2) rest3 this] show ?thesis
      unfolding blocksLoop_000_not_due [OF acc1 False] .
  next
    case True
    let ?st1 = "saveAccounts_000 lib ch st (header b) (map (decodeHex lib) acc1)"
    have "blockId (header b) \<notin> stateId ` set (chainStates ?st1)"
      using Cons.prems(4) by (simp add: saveAccounts_000_frame)
    from saveRegularChainState_returns [OF Cons.prems(2) this] obtain st2 where
      st2: "saveRegularChainState ch ?st1 (header b) = Inr st2" by blast
    from saveRegularChainState_Inr [OF st2] obtain row where
      row: "chainStates st2 = chainStates st @ [row]" "stateId row = blockId (header b)"
      by (auto simp: saveAccounts_000_frame)
    have "\<forall>b'\<in>set rest. blockId (header b') \<notin> stateId ` set (chainStates st2)"
      using Cons.prems(3,4) row by (auto simp: image_iff)
    from Cons.IH [OF rest1 Cons.prems(2) rest3 this] show ?thesis
      unfolding blocksLoop_000_due(1) [OF acc1 True st2] .
  qed
qed

lemma cadence_run:
  "blocksLoop_000 demoLib demoChain cadenceBatch emptyStore None [] =
     Inr (\<lparr>accounts = fmempty,
           chainStates =
             [\<lparr>stateId = ''b1'', stateTimestamp = 43200000, blockNumber = 1,
               totalIssuance = 1000, tokenHolders = 0\<rparr>,
              \<lparr>stateId = ''b3'', stateTimestamp = 86400000, blockNumber = 3,
               totalIssuance = 1000, tokenHolders = 0\<rparr>],
           currentChainState = None\<rparr>, Some 86400000, [])"
proof -
  have save: "saveAccounts_000 demoLib demoChain st block [] = st" for st block
    by (simp add: saveAccounts_000_def getBalances_000_def getSystemAccountBalances_000_def
        SystemAccountStorage_isExists_def demo_issuance queryStorage_def saveAccountsWith_def
        saveAccountsLoop.simps store_save_def store_remove_def)
  have state: "getChainState demoChain st block =
      Inr \<lparr>stateId = blockId block, stateTimestamp = timestamp block, blockNumber = height block,
           totalIssuance = 1000, tokenHolders = store_count st\<rparr>" for st block
    by (simp add: getChainState_def getTotalIssuance_cases demo_issuance)
  show ?thesis
    by (simp add: cadenceBatch_def emptyStore_def getLastChainState_def SAVE_PERIOD_def save
        saveRegularChainState_def state store_insert_def store_count_def)
qed

section \<open>Accumulation of the touched accounts\<close>

lemma setAdd_set [simp]: "set (setAdd x xs) = insert x (set xs)"
  by (auto simp: setAdd_def)

lemma setAdd_distinct [simp]: "distinct (setAdd x xs) = distinct xs"
  by (auto simp: setAdd_def)

lemma fold_setAdd_set [simp]: "set (fold setAdd as acc) = set as \<union> set acc"
  by (induction as arbitrary: acc) auto

lemma fold_setAdd_distinct [simp]: "distinct (fold setAdd as acc) = distinct acc"
  by (induction as arbitrary: acc) auto

lemma processItems_001_fold:
  "processItems_001 lib its acc = Inr acc' \<Longrightarrow>
     acc' = fold setAdd (touchedSeq lib (filter (\<lambda>item. kind item = ''event'') its)) acc"
proof (induction its arbitrary: acc)
  case Nil
  then show ?case by (simp add: touchedSeq_def)
next
  case (Cons item rest)
  show ?case
  proof (cases "kind item = ''event''")
    case True
    with Cons.prems obtain as where as: "itemAccounts lib item = Inr as"
      and rest: "processItems_001 lib rest (fold setAdd as acc) = Inr acc'"
      by (auto simp: processBalancesEventItem_001_def andThen_eq_Inr)
    from Cons.IH [OF rest] as True show ?thesis by (simp add: touchedSeq_def)
  next
    case False
    with Cons.prems have "processItems_001 lib rest acc = Inr acc'" by simp
    from Cons.IH [OF this] False show ?thesis by (simp add: touchedSeq_def)
  qed
qed

lemma touchedSeq_append: "touchedSeq lib (xs @ ys) = touchedSeq lib xs @ touchedSeq lib ys"
  by (simp add: touchedSeq_def)

lemma collectBlocks_001_fold:
  "collectBlocks_001 lib blocks acc = Inr acc' \<Longrightarrow>
     acc' = fold setAdd (touchedSeq lib (windowEvents blocks)) acc"
proof (induction blocks arbitrary: acc)
  case Nil
  then show ?case by (simp add: touchedSeq_def windowEvents_def)
next
  case (Cons b rest)
  from Cons.prems obtain acc1 where acc1: "processItems_001 lib (items b) acc = Inr acc1"
    and rest: "collectBlocks_001 lib rest acc1 = Inr acc'"
    by (auto simp: andThen_eq_Inr)
  from Cons.IH [OF rest] processItems_001_fold [OF acc1] show ?case
    by (simp add: touchedSeq_append windowEvents_def)
qed

lemma saveAccounts_000_untouched:
  assumes "k \<notin> encodeId lib ` set ids"
  shows "fmlookup (accounts (saveAccounts_000 lib ch st block ids)) k = fmlookup (accounts st) k"
proof (cases "getBalances_000 ch block ids")
  case None
  then show ?thesis by (simp add: saveAccounts_000_def)
next
  case (Some bs)
  have "\<forall>j<length ids. encodeId lib (ids ! j) = k \<longrightarrow> balanceAt bs j = None"
    using assms by auto
  from saveAccountsWith_unobserved [OF this] Some show ?thesis
    by (simp add: saveAccounts_000_def)
qed

lemma getBalances_000_exists:
  "(getBalances_000 ch block ids = None) = (getStorageItemTypeHash ch ''System'' ''Account'' = None)"
  by (simp add: getBalances_000_def getSystemAccountBalances_000_def SystemAccountStorage_isExists_def)

lemma saveAccounts_000_set_cong:
  assumes sets: "set ids1 = set ids2" and inj: "inj_on (encodeId lib) (set ids1)"
  shows "accounts (saveAccounts_000 lib ch st block ids1) = accounts (saveAccounts_000 lib ch st block ids2)"
proof (rule fmap_ext)
  fix k
  show "fmlookup (accounts (saveAccounts_000 lib ch st block ids1)) k
      = fmlookup (accounts (saveAccounts_000 lib ch st block ids2)) k"
  proof (cases "k \<in> encodeId lib ` set ids1")
    case False
    with sets show ?thesis by (simp add: saveAccounts_000_untouched)
  next
    case True
    then obtain a where a: "a \<in> set ids1" "k = encodeId lib a" by blast
    show ?thesis
    proof (cases "getStorageItemTypeHash ch ''System'' ''Account'' = None")
      case True
      then have "getBalances_000 ch block ids1 = None" "getBalances_000 ch block ids2 = None"
        by (simp_all add: getBalances_000_exists)
      then show ?thesis by (simp add: saveAccounts_000_def)
    next
      case False
      then obtain bs1 bs2 where bs: "getBalances_000 ch block ids1 = Some bs1"
        "getBalances_000 ch block ids2 = Some bs2"
        using getBalances_000_exists [of ch block] by (metis not_Some_eq)
      have inj2: "inj_on (encodeId lib) (set ids2)" and a2: "a \<in> set ids2"
        using inj a sets by simp_all
      show ?thesis
        unfolding a(2) saveAccounts_000_fetched [OF bs(1) inj a(1)]
          saveAccounts_000_fetched [OF bs(2) inj2 a2] ..
    qed
  qed
qed

lemma itemAccounts_hex:
  "itemAccounts lib item = Inr as \<Longrightarrow> set as \<subseteq> range (toHex lib)"
  by (auto simp: itemAccounts_def andThen_eq_Inr getBalanceSetAccount_def getTransferAccounts_def
      getEndowedAccount_def getDepositAccount_def getReservedAccount_def getUnreservedAccount_def
      getWithdrawAccount_def getSlashedAccount_def getReserveRepatriatedAccounts_def
      split: if_splits)

lemma touchedSeq_hex: "set (touchedSeq lib its) \<subseteq> range (toHex lib)"
proof (induction its)
  case Nil
  show ?case by (simp add: touchedSeq_def)
next
  case (Cons item rest)
  then show ?case
    using itemAccounts_hex [of lib item]
    by (cases "itemAccounts lib item") (auto simp: touchedSeq_def)
qed

lemma accumulated_ids_distinct:
  assumes roundtrip: "\<forall>b. decodeHex lib (toHex lib b) = b"
    and inj: "inj (encodeId lib)"
    and run: "collectBlocks_001 lib blocks [] = Inr acc"
  shows "distinct (map (encodeId lib) (map (decodeHex lib) acc))"
proof -
  have acc: "acc = fold setAdd (touchedSeq lib (windowEvents blocks)) []"
    using run by (rule collectBlocks_001_fold)
  then have d: "distinct acc" and hex: "set acc \<subseteq> range (toHex lib)"
    using touchedSeq_hex [of lib "windowEvents blocks"] by simp_all
  have "inj_on (\<lambda>h. encodeId lib (decodeHex lib h)) (set acc)"
  proof (rule inj_onI)
    fix x y assume x: "x \<in> set acc" and y: "y \<in> set acc"
      and eq: "encodeId lib (decodeHex lib x) = encodeId lib (decodeHex lib y)"
    from x y hex obtain bx "by" where b: "x = toHex lib bx" "y = toHex lib by" by blast
    from eq inj have "decodeHex lib x = decodeHex lib y" by (simp add: inj_eq)
    with b roundtrip show "x = y" by simp
  qed
  with d show ?thesis by (simp add: distinct_map comp_def)
qed

lemma demo_items:
  "itemAccounts demoLib endowedItem = Inr [''xa'']"
  "itemAccounts demoLib transferItem = Inr [''xa'', ''xb'']"
  "itemAccounts demoLib reservedItem = Inr [''xb'']"
  by (simp_all add: itemAccounts_def endowedItem_def transferItem_def reservedItem_def
      getEndowedAccount_def getTransferAccounts_def getReservedAccount_def demoLib_def)

lemma demo_kinds:
  "kind endowedItem = ''event''" "kind transferItem = ''event''" "kind reservedItem = ''event''"
  by (simp_all add: endowedItem_def transferItem_def reservedItem_def)

lemma demo_accumulate:
  "collectBlocks_001 demoLib windowA [] = Inr [''xa'', ''xb'']"
  "collectBlocks_001 demoLib windowB [] = Inr [''xb'', ''xa'']"
  by (simp_all add: windowA_def windowB_def demo_kinds processBalancesEventItem_001_def
      demo_items setAdd_def)

section \<open>The invariant along the batch handlers\<close>

lemma accountInvariant_accounts:
  "accounts st1 = accounts st2 \<Longrightarrow> accountInvariant st1 = accountInvariant st2"
  by (simp add: accountInvariant_def)

lemma saveAccounts_000_invariant:
  "accountInvariant st \<Longrightarrow> accountInvariant (saveAccounts_000 lib ch st block ids)"
  unfolding saveAccounts_000_def by (rule saveAccountsWith_invariant)

lemma saveRegularChainState_invariant:
  assumes "saveRegularChainState ch st block = Inr st'" "accountInvariant st"
  shows "accountInvariant st'"
proof -
  from saveRegularChainState_Inr [OF assms(1)] have "accounts st' = accounts st" by blast
  from accountInvariant_accounts [OF this] assms(2) show ?thesis by simp
qed

lemma blocksLoop_000_invariant:
  assumes "blocksLoop_000 lib ch blocks st lastTs acc = Inr (st', lastTs', acc')"
    and "accountInvariant st"
  shows "accountInvariant st'"
  using assms
proof (induction blocks arbitrary: st lastTs acc)
  case Nil
  then show ?case by simp
next
  case (Cons b rest)
  from Cons.prems(1) obtain acc1 where acc1: "processItems_000 (items b) acc = Inr acc1"
    by (auto simp: andThen_eq_Inr)
  show ?case
  proof (cases "SAVE_PERIOD \<le> timestamp (header b) - spec_initialTimestamp st lastTs")
    case False
    from Cons.prems(1) have
      "blocksLoop_000 lib ch rest st (Some (spec_initialTimestamp st lastTs)) acc1 = Inr (st', lastTs', acc')"
      unfolding blocksLoop_000_not_due [OF acc1 False] .
    from Cons.IH [OF this Cons.prems(2)] show ?thesis .
  next
    case True
    let ?st1 = "saveAccounts_000 lib ch st (header b) (map (decodeHex lib) acc1)"
    from Cons.prems(1) acc1 True obtain st2 where
      st2: "saveRegularChainState ch ?st1 (header b) = Inr st2"
      by (auto simp: andThen_eq_Inr initial_timestamp Let_def)
    have inv2: "accountInvariant st2"
      using st2 saveAccounts_000_invariant [OF Cons.prems(2)]
      by (rule saveRegularChainState_invariant)
    from Cons.prems(1) have
      "blocksLoop_000 lib ch rest st2 (Some (timestamp (header b))) [] = Inr (st', lastTs', acc')"
      unfolding blocksLoop_000_due(1) [OF acc1 True st2] .
    from Cons.IH [OF this inv2] show ?thesis .
  qed
qed

lemma processBalances_001_invariant:
  assumes "processBalances_001 lib ch blocks st = Inr st'" and "accountInvariant st"
  shows "accountInvariant st'"
proof -
  from assms(1) obtain acc st1 where
    st1: "saveRegularChainState ch st (header (last blocks)) = Inr st1"
    and st': "saveAccounts_001 lib ch st1 (header (last blocks)) (map (decodeHex lib) acc) = Inr st'"
    by (auto simp: processBalances_001_def andThen_eq_Inr Let_def split: if_splits)
  from saveRegularChainState_invariant [OF st1 assms(2)] have "accountInvariant st1" .
  then show ?thesis
    using saveAccounts_001_Inr [OF st'] by (simp add: saveAccounts_000_invariant)
qed

text \<open>Part_000 at the end of a batch: the current chain state is computed on the store
  that \<^verbatim>\<open>saveAccounts\<close> has just reconciled, and no durable row is added there.\<close>

lemma processBalances_000_order:
  assumes "processBalances_000 lib ch blocks st lastTs = Inr (st3, lastTs')"
  shows "\<exists>st1 acc state.
           blocksLoop_000 lib ch blocks st lastTs [] = Inr (st1, lastTs', acc)
         \<and> currentChainState st3 = Some state
         \<and> tokenHolders state =
             store_count (saveAccounts_000 lib ch st1 (header (last blocks)) (map (decodeHex lib) acc))
         \<and> accounts st3 =
             accounts (saveAccounts_000 lib ch st1 (header (last blocks)) (map (decodeHex lib) acc))
         \<and> chainStates st3 = chainStates st1"
  using assms
  by (auto simp: processBalances_000_def andThen_eq_Inr Let_def saveCurrentChainState_def
      getChainState_def saveAccounts_000_frame split: if_splits prod.splits)

section \<open>The cadence of part_000\<close>

lemma blocksLoop_000_cadence:
  assumes "blocksLoop_000 lib ch blocks st lastTs acc = Inr (st', lastTs', acc')"
  shows "\<exists>rows. chainStates st' = chainStates st @ rows
          \<and> map rowKey rows =
              map blockKey (spec_snapshots SAVE_PERIOD (spec_initialTimestamp st lastTs) (map header blocks))
          \<and> lastTs' = (if blocks = [] then lastTs
                        else Some (spec_lastSnapshot SAVE_PERIOD (spec_initialTimestamp st lastTs) (map header blocks)))"
  using assms
proof (induction blocks arbitrary: st lastTs acc)
  case Nil
  then show ?case by simp
next
  case (Cons b rest)
  let ?L = "spec_initialTimestamp st lastTs"
  from Cons.prems obtain acc1 where acc1: "processItems_000 (items b) acc = Inr acc1"
    by (auto simp: andThen_eq_Inr)
  show ?case
  proof (cases "SAVE_PERIOD \<le> timestamp (header b) - ?L")
    case False
    from Cons.prems have run: "blocksLoop_000 lib ch rest st (Some ?L) acc1 = Inr (st', lastTs', acc')"
      unfolding blocksLoop_000_not_due [OF acc1 False] .
    have init: "spec_initialTimestamp st (Some ?L) = ?L" by (simp add: spec_initialTimestamp_def)
    from Cons.IH [OF run] False show ?thesis
      unfolding init by (cases rest) auto
  next
    case True
    let ?st1 = "saveAccounts_000 lib ch st (header b) (map (decodeHex lib) acc1)"
    from Cons.prems acc1 True obtain st2 where
      st2: "saveRegularChainState ch ?st1 (header b) = Inr st2"
      by (auto simp: andThen_eq_Inr initial_timestamp Let_def)
    from Cons.prems have run:
      "blocksLoop_000 lib ch rest st2 (Some (timestamp (header b))) [] = Inr (st', lastTs', acc')"
      unfolding blocksLoop_000_due(1) [OF acc1 True st2] .
    from saveRegularChainState_Inr [OF st2] obtain row where
      row: "chainStates st2 = chainStates st @ [row]" "rowKey row = blockKey (header b)"
      by (auto simp: saveAccounts_000_frame rowKey_def blockKey_def)
    have init: "spec_initialTimestamp st2 (Some (timestamp (header b))) = timestamp (header b)"
      by (simp add: spec_initialTimestamp_def)
    from Cons.IH [OF run] obtain rows where
      rows: "chainStates st' = chainStates st2 @ rows"
        "map rowKey rows = map blockKey (spec_snapshots SAVE_PERIOD (timestamp (header b)) (map header rest))"
        "lastTs' = (if rest = [] then Some (timestamp (header b))
                    else Some (spec_lastSnapshot SAVE_PERIOD (timestamp (header b)) (map header rest)))"
      unfolding init by blast
    have "chainStates st' = chainStates st @ (row # rows)" using rows(1) row(1) by simp
    moreover have "map rowKey (row # rows) =
        map blockKey (spec_snapshots SAVE_PERIOD ?L (map header (b # rest)))"
      using True rows(2) row(2) by simp
    moreover have "lastTs' = Some (spec_lastSnapshot SAVE_PERIOD ?L (map header (b # rest)))"
      using True rows(3) by (cases rest) auto
    ultimately show ?thesis by (intro exI [of _ "row # rows"]) simp
  qed
qed

lemma blocksLoop_000_cadence_example:
  "blocksLoop_000 demoLib demoChain cadenceBatch emptyStore None [] =
     Inr (\<lparr>accounts = fmempty,
           chainStates =
             [\<lparr>stateId = ''b1'', stateTimestamp = 43200000, blockNumber = 1,
               totalIssuance = 1000, tokenHolders = 0\<rparr>,
              \<lparr>stateId = ''b3'', stateTimestamp = 86400000, blockNumber = 3,
               totalIssuance = 1000, tokenHolders = 0\<rparr>],
           currentChainState = None\<rparr>, Some 86400000, [])
   \<and> spec_initialTimestamp emptyStore None = 0
   \<and> map blockKey (spec_snapshots SAVE_PERIOD 0 (map header cadenceBatch)) =
       [(''b1'', 43200000, 1), (''b3'', 86400000, 3)]
   \<and> spec_lastSnapshot SAVE_PERIOD 0 (map header cadenceBatch) = 86400000"
proof -
  have a: "spec_initialTimestamp emptyStore None = 0"
    by (simp add: spec_initialTimestamp_def emptyStore_def)
  have b: "map blockKey (spec_snapshots SAVE_PERIOD 0 (map header cadenceBatch)) =
       [(''b1'', 43200000, 1), (''b3'', 86400000, 3)]"
    by (simp add: cadenceBatch_def SAVE_PERIOD_def blockKey_def)
  have c: "spec_lastSnapshot SAVE_PERIOD 0 (map header cadenceBatch) = 86400000"
    by (simp add: cadenceBatch_def SAVE_PERIOD_def)
  from blocksLoop_000_cadence [OF cadence_run] show ?thesis
    using a b c by (simp add: cadence_run)
qed

lemma part_000_supported_event_fails:
  assumes "name item \<in> set supportedNames"
  shows "processBalancesEventItem_000 item acc = Inl ReferenceError"
    and "processItems_000 (item # rest) acc = Inl ReferenceError"
    and "blocksLoop_000 lib ch (\<lparr>header = h, items = item # rest\<rparr> # blocks) st lastTs acc = Inl ReferenceError"
  using assms by (simp_all add: processBalancesEventItem_000_cases)

lemma late_state:
  "getChainState demoChain st lateBlock =
     Inr \<lparr>stateId = ''0000275941-bbbbb'', stateTimestamp = 1666733012000, blockNumber = 275941,
          totalIssuance = 1000, tokenHolders = store_count st\<rparr>"
  by (simp add: getChainState_def getTotalIssuance_cases demo_issuance lateBlock_def)

lemma save_nothing_000: "saveAccounts_000 lib demoChain st block [] = st"
  by (simp add: saveAccounts_000_def getBalances_000_def getSystemAccountBalances_000_def
      SystemAccountStorage_isExists_def demo_issuance queryStorage_def saveAccountsWith_def
      saveAccountsLoop.simps store_save_def store_remove_def)

lemma save_nothing_001: "saveAccounts_001 lib demoChain st block [] = Inr st"
  by (simp add: saveAccounts_001_def getBalances_001_def getSystemAccountBalances_001_def
      SystemAccountStorage_isExists_def SystemAccountStorage_isV1_def
      SystemAccountStorage_getManyAsV1_def demo_issuance queryStorage_def saveAccountsWith_def
      saveAccountsLoop.simps store_save_def store_remove_def)

section \<open>Reconciliation of one account and of a set of accounts\<close>

lemma getBalances_001_other_ids:
  "getBalances_001 ch block ids = Inr x \<Longrightarrow>
     getBalances_001 ch block ids' = Inr (getBalances_000 ch block ids')"
  by (auto simp: getBalances_001_def getBalances_000_def getSystemAccountBalances_001_def
      getSystemAccountBalances_000_def SystemAccountStorage_getManyAsV1_def
      SystemAccountStorage_getManyAsV3_def split: if_splits)

lemma saveAccounts_001_other_ids:
  assumes "saveAccounts_001 lib ch st block ids = Inr st1"
  shows "saveAccounts_001 lib ch st block ids' = Inr (saveAccounts_000 lib ch st block ids')"
proof -
  from assms obtain x where "getBalances_001 ch block ids = Inr x"
    by (auto simp: saveAccounts_001_def andThen_eq_Inr)
  from getBalances_001_other_ids [OF this, of ids'] show ?thesis
    by (simp add: saveAccounts_001_def saveAccounts_000_def)
qed

lemma getBalances_000_length:
  "getBalances_000 ch block ids = Some bs \<Longrightarrow> length bs = length ids"
  by (auto dest: getBalances_000_Some)

lemma saveAccounts_000_row:
  assumes inj: "inj_on (encodeId lib) (set ids)" and a: "a \<in> set ids"
  shows "fmlookup (accounts (saveAccounts_000 lib ch st block ids)) (encodeId lib a) =
           (if getStorageItemTypeHash ch ''System'' ''Account'' = None
            then fmlookup (accounts st) (encodeId lib a)
            else (let b = toBalance (systemAccountAt ch (hash block) [a]) in
                  if 0 < free b + reserved b
                  then Some (newAccount (encodeId lib a) b (free b + reserved b) (height block))
                  else None))"
proof (cases "getStorageItemTypeHash ch ''System'' ''Account'' = None")
  case True
  then have "getBalances_000 ch block ids = None" by (simp add: getBalances_000_exists)
  with True show ?thesis by (simp add: saveAccounts_000_def)
next
  case False
  then obtain bs where "getBalances_000 ch block ids = Some bs"
    using getBalances_000_exists [of ch block ids] by auto
  from saveAccounts_000_fetched [OF this inj a, of st] False show ?thesis by auto
qed

lemma demo_fetch_001:
  "getBalances_001 demoChain demoBlock ids = Inr (getBalances_000 demoChain demoBlock ids)"
  by (simp add: getBalances_001_def getBalances_000_def getSystemAccountBalances_001_def
      getSystemAccountBalances_000_def SystemAccountStorage_isExists_def
      SystemAccountStorage_isV1_def SystemAccountStorage_getManyAsV1_def demo_issuance)

lemma demo_save_001:
  "saveAccounts_001 demoLib demoChain demoStore demoBlock [[1], [2]] =
     Inr \<lparr>accounts = fmupd ''calamari:A'' (newAccount ''calamari:A'' \<lparr>free = 30, reserved = 20\<rparr> 50 7) fmempty,
          chainStates = [], currentChainState = None\<rparr>"
  using demo_save by (simp add: saveAccounts_001_def saveAccounts_000_def demo_fetch_001)

lemma demo_decode:
  "decodeHex demoLib ''xa'' = [1]" "decodeHex demoLib ''xb'' = [2]"
  "toHex demoLib [1] = ''xa''" "toHex demoLib [2] = ''xb''"
  by (simp_all add: demoLib_def)

section \<open>Claims\<close>

text \<open>
  C5. When the storage item \<^verbatim>\<open>System.Account\<close> does not exist at the runtime in force
  (\<^verbatim>\<open>getStorageItemTypeHash\<close> is undefined), the balance fetch of either version
  returns the sentinel \<^verbatim>\<open>undefined\<close> without an error, and \<^verbatim>\<open>saveAccounts\<close> of either
  version returns normally with the store unchanged: no row is upserted, none is deleted.
\<close>

theorem C5_absent_storage_skips_reconciliation:
  assumes "getStorageItemTypeHash ch ''System'' ''Account'' = None"
  shows "getBalances_000 ch block accountIds = None
       \<and> getBalances_001 ch block accountIds = Inr None
       \<and> saveAccounts_000 lib ch st block accountIds = st
       \<and> saveAccounts_001 lib ch st block accountIds = Inr st"
  using assms
  by (simp add: getBalances_000_def getBalances_001_def getSystemAccountBalances_000_def
      getSystemAccountBalances_001_def SystemAccountStorage_isExists_def
      saveAccounts_000_def saveAccounts_001_def saveAccountsWith_def)

theorem C5_absent_storage_witness:
  "getStorageItemTypeHash bareChain ''System'' ''Account'' = None
   \<and> getBalances_000 bareChain demoBlock [[1], [2]] = None
   \<and> getBalances_001 bareChain demoBlock [[1], [2]] = Inr None
   \<and> saveAccounts_000 demoLib bareChain emptyStore demoBlock [[1], [2]] = emptyStore
   \<and> saveAccounts_001 demoLib bareChain emptyStore demoBlock [[1], [2]] = Inr emptyStore"
  using C5_absent_storage_skips_reconciliation
    [of bareChain demoBlock "[[1], [2]]" demoLib emptyStore]
  by (simp add: bareChain_def)

text \<open>
  C1. Reconciliation preserves the invariant of the account table: if every persisted
  row has \<open>total = free + reserved\<close> and \<open>total > 0\<close> before \<^verbatim>\<open>saveAccounts\<close>, so
  has every row after it, whatever the fetched balances are, in both versions; an
  account observed with total 0 has no row afterwards. The same holds after the block
  loop of part_000 and after \<^verbatim>\<open>processBalances\<close> of part_001, whose other steps do not
  write account rows.
\<close>

theorem C1_account_invariant_preserved:
  assumes "accountInvariant st"
  shows "accountInvariant (saveAccountsWith lib st block ids balances)
       \<and> accountInvariant (saveAccounts_000 lib ch st block ids)
       \<and> (\<forall>st'. saveAccounts_001 lib ch st block ids = Inr st' \<longrightarrow> accountInvariant st')
       \<and> (\<forall>bs i b. balances = Some bs \<and> i < length ids \<and> balanceAt bs i = Some b
              \<and> free b + reserved b = 0
            \<longrightarrow> fmlookup (accounts (saveAccountsWith lib st block ids balances))
                  (encodeId lib (ids ! i)) = None)
       \<and> (\<forall>st' lastTs' acc'. blocksLoop_000 lib ch blocks st lastTs acc = Inr (st', lastTs', acc')
            \<longrightarrow> accountInvariant st')
       \<and> (\<forall>st'. processBalances_001 lib ch blocks st = Inr st' \<longrightarrow> accountInvariant st')"
proof (intro conjI allI impI)
  show "accountInvariant (saveAccountsWith lib st block ids balances)"
    using assms by (rule saveAccountsWith_invariant)
  show "accountInvariant (saveAccounts_000 lib ch st block ids)"
    using assms by (rule saveAccounts_000_invariant)
  then show "accountInvariant st'" if "saveAccounts_001 lib ch st block ids = Inr st'" for st'
    using saveAccounts_001_Inr [OF that] by simp
  show "accountInvariant st'"
    if "blocksLoop_000 lib ch blocks st lastTs acc = Inr (st', lastTs', acc')" for st' lastTs' acc'
    using that assms by (rule blocksLoop_000_invariant)
  show "accountInvariant st'" if "processBalances_001 lib ch blocks st = Inr st'" for st'
    using that assms by (rule processBalances_001_invariant)
next
  fix bs i b
  assume h: "balances = Some bs \<and> i < length ids \<and> balanceAt bs i = Some b \<and> free b + reserved b = 0"
  then have "fmlookup (accounts (saveAccountsWith lib st block ids (Some bs))) (encodeId lib (ids ! i)) = None"
    by (intro saveAccountsWith_deleted [where b = b]) simp_all
  with h show "fmlookup (accounts (saveAccountsWith lib st block ids balances)) (encodeId lib (ids ! i)) = None"
    by simp
qed

theorem C1_account_invariant_witness:
  "accountInvariant demoStore
   \<and> accountInvariant (saveAccounts_000 demoLib demoChain demoStore demoBlock [[1], [2]])
   \<and> fmlookup (accounts (saveAccounts_000 demoLib demoChain demoStore demoBlock [[1], [2]])) ''calamari:B'' = None"
  using C1_account_invariant_preserved [OF demoStore_ok, of demoLib demoBlock "[[1], [2]]"
      "Some [Some \<lparr>free = 30, reserved = 20\<rparr>, Some \<lparr>free = 0, reserved = 0\<rparr>]" demoChain]
  by (simp add: demoStore_ok demo_save)

text \<open>
  C2. When the fetched balances are present (in either version), for every requested
  account \<open>a\<close>, with \<open>f\<close> and \<open>r\<close> the free and reserved balance that the chain holds
  for it at the reference block: if \<open>f + r > 0\<close> the row of \<open>a\<close> after \<^verbatim>\<open>saveAccounts\<close>
  is exactly \<open>(id, f, r, f + r, height of the block)\<close>; if \<open>f + r = 0\<close> there is no row
  of \<open>a\<close> afterwards, whether there was one before or not. The address encoding is
  assumed injective on the requested accounts.
\<close>

theorem C2_upsert_positive_delete_zero:
  assumes fetched:
      "getBalances_000 ch block ids = Some bs \<and> st' = saveAccounts_000 lib ch st block ids
       \<or> getBalances_001 ch block ids = Inr (Some bs) \<and> saveAccounts_001 lib ch st block ids = Inr st'"
    and inj: "inj_on (encodeId lib) (set ids)"
    and a: "a \<in> set ids"
    and f: "f = data_free (data (systemAccountAt ch (hash block) [a]))"
    and r: "r = data_reserved (data (systemAccountAt ch (hash block) [a]))"
  shows "(0 < f + r \<longrightarrow>
            fmlookup (accounts st') (encodeId lib a) =
              Some \<lparr>accountId = encodeId lib a, acc_free = Some f, acc_reserved = Some r,
                    totalAmount = Some (f + r), updatedAt = Some (height block)\<rparr>)
       \<and> (f + r = 0 \<longrightarrow> fmlookup (accounts st') (encodeId lib a) = None)"
proof -
  from fetched have "getBalances_000 ch block ids = Some bs \<and> st' = saveAccounts_000 lib ch st block ids"
    using getBalances_001_Inr saveAccounts_001_Inr by blast
  then have fetch: "getBalances_000 ch block ids = Some bs"
    and st': "st' = saveAccounts_000 lib ch st block ids" by simp_all
  from saveAccounts_000_fetched [OF fetch inj a, of st] show ?thesis
    unfolding st' f r by (simp add: Let_def toBalance_def newAccount_def)
qed

theorem C2_upsert_positive_witness:
  "getBalances_000 demoChain demoBlock [[1], [2]] \<noteq> None
   \<and> inj_on (encodeId demoLib) (set [[1], [2]]) \<and> [1] \<in> set [[1], [2 :: 8 word]]
   \<and> fmlookup (accounts (saveAccounts_000 demoLib demoChain demoStore demoBlock [[1], [2]]))
        (encodeId demoLib [1]) =
      Some \<lparr>accountId = encodeId demoLib [1], acc_free = Some 30, acc_reserved = Some 20,
            totalAmount = Some 50, updatedAt = Some (height demoBlock)\<rparr>"
proof -
  have mem: "[1] \<in> set [[1], [2 :: 8 word]]" by simp
  have "getBalances_000 demoChain demoBlock [[1], [2]] =
          Some [Some \<lparr>free = 30, reserved = 20\<rparr>, Some \<lparr>free = 0, reserved = 0\<rparr>]
        \<and> saveAccounts_000 demoLib demoChain demoStore demoBlock [[1], [2]] =
          saveAccounts_000 demoLib demoChain demoStore demoBlock [[1], [2]]"
    by (simp add: demo_fetch)
  from C2_upsert_positive_delete_zero
         [OF disjI1 [OF this] demo_inj mem demo_info(1) [symmetric] demo_info(2) [symmetric]]
  show ?thesis
    using demo_inj mem by (simp add: demo_fetch)
qed

text \<open>
  C9. A requested account whose entry in the fetched balances array is undefined (also
  at every other index that carries the same encoded id) is skipped: its id enters
  neither the map of upserts nor the map of deletions, and its persisted row, present or
  absent, is the same after \<^verbatim>\<open>saveAccounts\<close> as before.
\<close>

theorem C9_undefined_entry_left_unchanged:
  assumes "i < length ids"
    and "\<forall>j<length ids. encodeId lib (ids ! j) = encodeId lib (ids ! i) \<longrightarrow> balanceAt bs j = None"
    and "maps = saveAccountsLoop lib (height block) ids bs 0 ([], [])"
  shows "encodeId lib (ids ! i) \<notin> fst ` set (fst maps)
       \<and> encodeId lib (ids ! i) \<notin> fst ` set (snd maps)
       \<and> fmlookup (accounts (saveAccountsWith lib st block ids (Some bs))) (encodeId lib (ids ! i))
           = fmlookup (accounts st) (encodeId lib (ids ! i))"
proof (intro conjI)
  show "encodeId lib (ids ! i) \<notin> fst ` set (fst maps)"
    unfolding assms(3) saveAccountsLoop_prefix prefix_upsert_keys using assms(2) by auto
  show "encodeId lib (ids ! i) \<notin> fst ` set (snd maps)"
    unfolding assms(3) saveAccountsLoop_prefix prefix_deletion_keys using assms(2) by auto
  show "fmlookup (accounts (saveAccountsWith lib st block ids (Some bs))) (encodeId lib (ids ! i))
           = fmlookup (accounts st) (encodeId lib (ids ! i))"
    using assms(2) by (rule saveAccountsWith_unobserved)
qed

theorem C9_undefined_entry_witness:
  "(1::nat) < length [[1], [2 :: 8 word]]
   \<and> balanceAt [Some \<lparr>free = 30, reserved = 20\<rparr>] 1 = None
   \<and> fmlookup (accounts (saveAccountsWith demoLib demoStore demoBlock [[1], [2]]
                            (Some [Some \<lparr>free = 30, reserved = 20\<rparr>]))) ''calamari:B''
       = fmlookup (accounts demoStore) ''calamari:B''
   \<and> fmlookup (accounts demoStore) ''calamari:B'' \<noteq> None"
proof -
  have i: "(1::nat) < length [[1], [2 :: 8 word]]" by simp
  have none: "balanceAt [Some \<lparr>free = 30, reserved = 20\<rparr>] 1 = None"
    by (simp add: balanceAt_def)
  have all: "\<forall>j<length [[1], [2 :: 8 word]].
      encodeId demoLib ([[1], [2]] ! j) = encodeId demoLib ([[1], [2]] ! 1) \<longrightarrow>
      balanceAt [Some \<lparr>free = 30, reserved = 20\<rparr>] j = None"
    by (simp add: less_Suc_eq demo_ids balanceAt_def)
  from C9_undefined_entry_left_unchanged [OF i all refl, of demoBlock demoStore]
  show ?thesis using i none by (simp add: demo_ids demoStore_def)
qed

text \<open>
  C10. When the encoded ids of a reconciliation are pairwise distinct (the driver passes
  the elements of a set: lemma \<open>accumulated_ids_distinct\<close>), the keys of the map of upserts and the keys of the map of
  deletions are disjoint, and every index with a present balance entry has its id in
  exactly one of the two.
\<close>

theorem C10_upserts_and_deletions_disjoint:
  assumes "distinct (map (encodeId lib) ids)"
    and "maps = saveAccountsLoop lib h ids bs 0 ([], [])"
  shows "fst ` set (fst maps) \<inter> fst ` set (snd maps) = {}
       \<and> (\<forall>i<length ids. balanceAt bs i \<noteq> None \<longrightarrow>
             (encodeId lib (ids ! i) \<in> fst ` set (fst maps))
               \<noteq> (encodeId lib (ids ! i) \<in> fst ` set (snd maps)))"
proof -
  have eq: "j = i" if "encodeId lib (ids ! j) = encodeId lib (ids ! i)" "j < length ids" "i < length ids" for i j
    using assms(1) that by (auto simp: distinct_conv_nth)
  have up: "fst ` set (fst maps) =
      {encodeId lib (ids ! j) | j b. j < length ids \<and> balanceAt bs j = Some b \<and> 0 < free b + reserved b}"
    unfolding assms(2) saveAccountsLoop_prefix by (rule prefix_upsert_keys)
  have del: "fst ` set (snd maps) =
      {encodeId lib (ids ! j) | j b. j < length ids \<and> balanceAt bs j = Some b \<and> \<not> 0 < free b + reserved b}"
    unfolding assms(2) saveAccountsLoop_prefix by (rule prefix_deletion_keys)
  have disj: "fst ` set (fst maps) \<inter> fst ` set (snd maps) = {}"
  proof (rule ccontr)
    assume "fst ` set (fst maps) \<inter> fst ` set (snd maps) \<noteq> {}"
    then obtain k where "k \<in> fst ` set (fst maps)" "k \<in> fst ` set (snd maps)" by blast
    then obtain j b j' b' where
      j: "j < length ids" "balanceAt bs j = Some b" "0 < free b + reserved b" "k = encodeId lib (ids ! j)"
      and j': "j' < length ids" "balanceAt bs j' = Some b'" "\<not> 0 < free b' + reserved b'" "k = encodeId lib (ids ! j')"
      unfolding up del by blast
    from eq [of j j'] j j' have "j = j'" by simp
    with j j' show False by simp
  qed
  have one: "(encodeId lib (ids ! i) \<in> fst ` set (fst maps)) \<noteq> (encodeId lib (ids ! i) \<in> fst ` set (snd maps))"
    if i: "i < length ids" and b: "balanceAt bs i \<noteq> None" for i
  proof -
    from b obtain b0 where b0: "balanceAt bs i = Some b0" by blast
    have "encodeId lib (ids ! i) \<in> fst ` set (fst maps) \<or> encodeId lib (ids ! i) \<in> fst ` set (snd maps)"
      unfolding up del using i b0 by (cases "0 < free b0 + reserved b0") blast+
    with disj show ?thesis by blast
  qed
  from disj one show ?thesis by blast
qed

theorem C10_upserts_and_deletions_witness:
  "distinct (map (encodeId demoLib) [[1], [2]])
   \<and> fst ` set (fst (saveAccountsLoop demoLib 7 [[1], [2]]
         [Some \<lparr>free = 30, reserved = 20\<rparr>, Some \<lparr>free = 0, reserved = 0\<rparr>] 0 ([], []))) = {''calamari:A''}
   \<and> fst ` set (snd (saveAccountsLoop demoLib 7 [[1], [2]]
         [Some \<lparr>free = 30, reserved = 20\<rparr>, Some \<lparr>free = 0, reserved = 0\<rparr>] 0 ([], []))) = {''calamari:B''}
   \<and> {''calamari:A''} \<inter> {''calamari:B''} = ({} :: string set)"
proof -
  have d: "distinct (map (encodeId demoLib) [[1], [2]])" by (simp add: demo_ids)
  from C10_upserts_and_deletions_disjoint [OF d refl, of 7
      "[Some \<lparr>free = 30, reserved = 20\<rparr>, Some \<lparr>free = 0, reserved = 0\<rparr>]"]
  show ?thesis using d by (simp add: demo_maps)
qed

text \<open>
  C8. Whenever \<^verbatim>\<open>getChainState\<close> returns a record for a block, its id is the block's id,
  its timestamp the block's timestamp, its block number the block's height, its total
  issuance the value of the issuance storage item at the block, or 0 when that item does
  not exist, and its token-holder count the number of rows of the account table at that
  moment. It does return a record when the item does not exist or has its known version.
\<close>

theorem C8_chain_state_record:
  "(\<forall>s. getChainState ch st block = Inr s \<longrightarrow>
        stateId s = blockId block \<and> stateTimestamp s = timestamp block
      \<and> blockNumber s = height block
      \<and> totalIssuance s =
          (if getStorageItemTypeHash ch ''Balances'' ''TotalIssuance'' = None then 0
           else totalIssuanceAt ch (hash block))
      \<and> tokenHolders s = fcard (fmdom (accounts st)))
   \<and> (getStorageItemTypeHash ch ''Balances'' ''TotalIssuance'' \<in> {None, Some TotalIssuance_V1}
        \<longrightarrow> (\<exists>s. getChainState ch st block = Inr s))"
  by (auto simp: getChainState_def getTotalIssuance_cases store_count_def
      split: option.splits if_splits)

theorem C8_chain_state_witness:
  "getChainState demoChain demoStore demoBlock =
     Inr \<lparr>stateId = ''0000000007-abcde'', stateTimestamp = 43200000, blockNumber = 7,
          totalIssuance = 1000, tokenHolders = 1\<rparr>
   \<and> getStorageItemTypeHash demoChain ''Balances'' ''TotalIssuance'' \<in> {None, Some TotalIssuance_V1}
   \<and> blockNumber \<lparr>stateId = ''0000000007-abcde'', stateTimestamp = 43200000, blockNumber = 7,
          totalIssuance = 1000, tokenHolders = 1\<rparr> = height demoBlock"
  using C8_chain_state_record [of demoChain demoStore demoBlock]
  by (simp add: demo_getChainState demo_count demo_issuance demoBlock_simps)

text \<open>
  C3. At a runtime whose \<^verbatim>\<open>System.Account\<close> has a type hash that is neither that of V1
  nor that of V3, no \<^verbatim>\<open>UnknownVersionError\<close> is raised: \<^verbatim>\<open>getSystemAccountBalances\<close> of
  part_000 returns balances and \<^verbatim>\<open>saveAccounts\<close> writes a row from them;
  \<^verbatim>\<open>getSystemAccountBalances\<close> of part_001 takes the V3 path, and fails there with the
  assertion of \<^verbatim>\<open>getManyAsV3\<close>. (The event extractors of part_001 and \<^verbatim>\<open>getTotalIssuance\<close> do raise
  \<^verbatim>\<open>UnknownVersionError\<close>: lemmas \<open>unknown_event_version\<close>, \<open>unknown_issuance_version\<close>.)
\<close>

theorem C3_system_account_unknown_version:
  "getStorageItemTypeHash unknownChain ''System'' ''Account'' = Some ''00''
   \<and> ''00'' \<noteq> SystemAccount_V1 \<and> ''00'' \<noteq> SystemAccount_V3
   \<and> getSystemAccountBalances_000 unknownChain demoBlock [[1]] = Some [Some \<lparr>free = 30, reserved = 20\<rparr>]
   \<and> fmlookup (accounts (saveAccounts_000 demoLib unknownChain emptyStore demoBlock [[1]])) ''calamari:A''
       = Some (newAccount ''calamari:A'' \<lparr>free = 30, reserved = 20\<rparr> 50 7)
   \<and> getSystemAccountBalances_001 unknownChain demoBlock [[1]] = Inl AssertionError
   \<and> saveAccounts_001 demoLib unknownChain emptyStore demoBlock [[1]] = Inl AssertionError"
proof -
  have f0: "getSystemAccountBalances_000 unknownChain demoBlock [[1]] = Some [Some \<lparr>free = 30, reserved = 20\<rparr>]"
    by (simp add: getSystemAccountBalances_000_def SystemAccountStorage_isExists_def unknown_hash
        queryStorage_def toBalance_def) (simp add: unknownChain_def demoChain_def)
  have f1: "getSystemAccountBalances_001 unknownChain demoBlock [[1]] = Inl AssertionError"
    by (simp add: getSystemAccountBalances_001_def SystemAccountStorage_isExists_def
        SystemAccountStorage_isV1_def SystemAccountStorage_isV3_def
        SystemAccountStorage_getManyAsV3_def unknown_hash)
  have loop: "saveAccountsLoop demoLib 7 [[1]] [Some \<lparr>free = 30, reserved = 20\<rparr>] 0 ([], [])
     = ([(''calamari:A'', newAccount ''calamari:A'' \<lparr>free = 30, reserved = 20\<rparr> 50 7)], [])"
    by (simp add: saveAccountsLoop.simps saveAccountsStep_def balanceAt_def demo_ids)
  have s0: "fmlookup (accounts (saveAccounts_000 demoLib unknownChain emptyStore demoBlock [[1]])) ''calamari:A''
       = Some (newAccount ''calamari:A'' \<lparr>free = 30, reserved = 20\<rparr> 50 7)"
    by (simp add: saveAccounts_000_def getBalances_000_def f0 saveAccountsWith_def demoBlock_simps
        loop store_save_def store_remove_def newAccount_def)
  have s1: "saveAccounts_001 demoLib unknownChain emptyStore demoBlock [[1]] = Inl AssertionError"
    by (simp add: saveAccounts_001_def getBalances_001_def f1)
  from f0 f1 s0 s1 unknown_hash show ?thesis by simp
qed

text \<open>
  C6. \<^verbatim>\<open>processBalances\<close> of part_001 saves the chain state before it reconciles the
  accounts: on an empty store and a batch whose only event endows the account \<open>[1]\<close>, the
  inserted snapshot counts 0 token holders, while the account table holds 1 row after the
  batch. (Part_000 reconciles first: lemmas \<open>blocksLoop_000_due\<close> and
  \<open>processBalances_000_order\<close>.)
\<close>

theorem C6_part_001_snapshot_before_reconciliation:
  "processBalances_001 demoLib demoChain demoBatch emptyStore =
     Inr \<lparr>accounts = fmupd ''calamari:A''
                        (newAccount ''calamari:A'' \<lparr>free = 30, reserved = 20\<rparr> 50 7) fmempty,
          chainStates = [\<lparr>stateId = ''0000000007-abcde'', stateTimestamp = 43200000,
                          blockNumber = 7, totalIssuance = 1000, tokenHolders = 0\<rparr>],
          currentChainState = None\<rparr>
   \<and> store_count \<lparr>accounts = fmupd ''calamari:A''
                        (newAccount ''calamari:A'' \<lparr>free = 30, reserved = 20\<rparr> 50 7) fmempty,
          chainStates = [\<lparr>stateId = ''0000000007-abcde'', stateTimestamp = 43200000,
                          blockNumber = 7, totalIssuance = 1000, tokenHolders = 0\<rparr>],
          currentChainState = None\<rparr> = 1"
proof -
  have dec: "decodeHex demoLib ''xa'' = [1]" by (simp add: demoLib_def)
  have lastb: "header (last demoBatch) = demoBlock" "demoBatch \<noteq> []" by (simp_all add: demoBatch_def)
  have cnt: "store_count emptyStore = 0" by (simp add: store_count_def emptyStore_def)
  have ins: "saveRegularChainState demoChain emptyStore demoBlock =
      Inr (emptyStore\<lparr>chainStates := [\<lparr>stateId = ''0000000007-abcde'', stateTimestamp = 43200000,
                          blockNumber = 7, totalIssuance = 1000, tokenHolders = 0\<rparr>]\<rparr>)"
    by (simp add: saveRegularChainState_def demo_getChainState cnt store_insert_def)
       (simp add: emptyStore_def)
  have run: "processBalances_001 demoLib demoChain demoBatch emptyStore =
      saveAccounts_001 demoLib demoChain
        (emptyStore\<lparr>chainStates := [\<lparr>stateId = ''0000000007-abcde'', stateTimestamp = 43200000,
                          blockNumber = 7, totalIssuance = 1000, tokenHolders = 0\<rparr>]\<rparr>)
        demoBlock [[1]]"
    by (simp add: processBalances_001_def demo_collect lastb dec ins)
  have save: "saveAccounts_001 demoLib demoChain st demoBlock [[1]] =
      Inr (store_remove (store_save st
             [newAccount ''calamari:A'' \<lparr>free = 30, reserved = 20\<rparr> 50 7]) [])" for st
    by (simp add: saveAccounts_001_def demo_fetch_one saveAccountsWith_def demoBlock_simps
        demo_loop_one)
  show ?thesis
    unfolding run save
    by (simp add: store_save_def store_remove_def emptyStore_def store_count_def
        fcard_finsert_if newAccount_def)
qed

text \<open>
  C4. The repository has the scheduler in part_000 only. There the loop over the blocks
  refines the cadence of the specification (lemma \<open>blocksLoop_000_cadence\<close>: the rows
  added are those of the blocks whose timestamp minus the last snapshot timestamp is at
  least \<^verbatim>\<open>SAVE_PERIOD\<close>, starting from the latest existing row or 0). \<^verbatim>\<open>processBalances\<close> of
  part_001 keeps no last snapshot timestamp and makes no test of the interval: on a store
  whose last snapshot is 12 seconds of chain time old, the cadence selects no block and
  the loop of part_000 adds no row, but part_001 inserts a durable row for the block.
\<close>

theorem C4_part_001_snapshot_every_batch:
  "spec_initialTimestamp snapshotStore None = 1666733000000
   \<and> timestamp lateBlock - 1666733000000 < SAVE_PERIOD
   \<and> spec_snapshots SAVE_PERIOD 1666733000000 (map header lateBatch) = []
   \<and> blocksLoop_000 demoLib demoChain lateBatch snapshotStore None []
       = Inr (snapshotStore, Some 1666733000000, [])
   \<and> processBalances_001 demoLib demoChain lateBatch snapshotStore
       = Inr (snapshotStore\<lparr>chainStates :=
                chainStates snapshotStore @
                  [\<lparr>stateId = ''0000275941-bbbbb'', stateTimestamp = 1666733012000,
                    blockNumber = 275941, totalIssuance = 1000, tokenHolders = 0\<rparr>]\<rparr>)"
proof -
  have init: "spec_initialTimestamp snapshotStore None = 1666733000000"
    by (simp add: spec_initialTimestamp_def snapshotStore_def)
  have early: "timestamp lateBlock - 1666733000000 < SAVE_PERIOD"
    by (simp add: lateBlock_def SAVE_PERIOD_def)
  have spec: "spec_snapshots SAVE_PERIOD 1666733000000 (map header lateBatch) = []"
    using early by (simp add: lateBatch_def)
  have items: "processItems_000 (items \<lparr>header = lateBlock, items = []\<rparr>) [] = Inr []"
    by simp
  have not_due: "\<not> SAVE_PERIOD \<le> timestamp (header \<lparr>header = lateBlock, items = []\<rparr>)
        - spec_initialTimestamp snapshotStore None"
    using early by (simp add: init)
  have loop: "blocksLoop_000 demoLib demoChain lateBatch snapshotStore None []
       = Inr (snapshotStore, Some 1666733000000, [])"
    unfolding lateBatch_def blocksLoop_000_not_due [OF items not_due] by (simp add: init)
  have cnt: "store_count snapshotStore = 0"
    by (simp add: store_count_def snapshotStore_def)
  have fresh: "stateId \<lparr>stateId = ''0000275941-bbbbb'', stateTimestamp = 1666733012000,
        blockNumber = 275941, totalIssuance = 1000, tokenHolders = 0\<rparr>
      \<notin> set (map stateId (chainStates snapshotStore))"
    by (simp add: snapshotStore_def)
  have ins: "saveRegularChainState demoChain snapshotStore lateBlock =
      Inr (snapshotStore\<lparr>chainStates :=
                chainStates snapshotStore @
                  [\<lparr>stateId = ''0000275941-bbbbb'', stateTimestamp = 1666733012000,
                    blockNumber = 275941, totalIssuance = 1000, tokenHolders = 0\<rparr>]\<rparr>)"
    using fresh by (simp add: saveRegularChainState_def late_state cnt store_insert_def)
  have run: "processBalances_001 demoLib demoChain lateBatch snapshotStore
       = Inr (snapshotStore\<lparr>chainStates :=
                chainStates snapshotStore @
                  [\<lparr>stateId = ''0000275941-bbbbb'', stateTimestamp = 1666733012000,
                    blockNumber = 275941, totalIssuance = 1000, tokenHolders = 0\<rparr>]\<rparr>)"
    by (simp add: processBalances_001_def lateBatch_def ins save_nothing_001)
  from init early spec loop run show ?thesis by simp
qed

text \<open>
  C7. Part_001 (part_000 cannot accumulate a supported event: lemma
  \<open>part_000_supported_event_fails\<close>). Let two batches be accumulated from the empty set and
  touch the same accounts, in any order and any number of times, and let reconciliation
  of the first succeed. Then each accumulated set holds every touched account exactly
  once; the keys of the one batched fetch are pairwise distinct and the fetch returns one
  entry for each touched account; reconciliation of the second batch succeeds with the
  same account table; and for every touched account the row after reconciliation is the
  row after reconciling that account alone, which, when \<^verbatim>\<open>System.Account\<close> exists, is the
  upsert \<open>(id, free, reserved, free + reserved, height)\<close> for a positive total and no
  row otherwise. The libraries are assumed to give back each accumulated hex id
  (\<^verbatim>\<open>toHex(decodeHex(x)) = x\<close>) and to encode the accumulated accounts injectively.
\<close>

theorem C7_accumulation_idempotent_order_insensitive:
  assumes run1: "collectBlocks_001 lib blocks1 [] = Inr acc1"
    and run2: "collectBlocks_001 lib blocks2 [] = Inr acc2"
    and same: "set (touchedSeq lib (windowEvents blocks1)) = set (touchedSeq lib (windowEvents blocks2))"
    and hex: "\<forall>x\<in>set acc1. toHex lib (decodeHex lib x) = x"
    and inj: "inj_on (encodeId lib) (decodeHex lib ` set acc1)"
    and save1: "saveAccounts_001 lib ch st block (map (decodeHex lib) acc1) = Inr st1"
  shows "distinct acc1 \<and> set acc1 = set (touchedSeq lib (windowEvents blocks1))
       \<and> distinct acc2 \<and> set acc2 = set acc1
       \<and> distinct (map (decodeHex lib) acc1) \<and> distinct (map (decodeHex lib) acc2)
       \<and> (\<forall>bs. getBalances_001 ch block (map (decodeHex lib) acc1) = Inr (Some bs) \<longrightarrow>
              length bs = card (set (touchedSeq lib (windowEvents blocks1))))
       \<and> (\<exists>st2. saveAccounts_001 lib ch st block (map (decodeHex lib) acc2) = Inr st2
              \<and> accounts st2 = accounts st1)
       \<and> (\<forall>x\<in>set (touchedSeq lib (windowEvents blocks1)).
              (\<exists>st3. saveAccounts_001 lib ch st block [decodeHex lib x] = Inr st3
                 \<and> fmlookup (accounts st1) (encodeId lib (decodeHex lib x))
                     = fmlookup (accounts st3) (encodeId lib (decodeHex lib x)))
            \<and> (getStorageItemTypeHash ch ''System'' ''Account'' \<noteq> None \<longrightarrow>
                  fmlookup (accounts st1) (encodeId lib (decodeHex lib x)) =
                    (let b = toBalance (systemAccountAt ch (hash block) [decodeHex lib x]) in
                     if 0 < free b + reserved b
                     then Some (newAccount (encodeId lib (decodeHex lib x)) b
                                  (free b + reserved b) (height block))
                     else None)))"
proof -
  let ?ids1 = "map (decodeHex lib) acc1" and ?ids2 = "map (decodeHex lib) acc2"
  have acc1: "acc1 = fold setAdd (touchedSeq lib (windowEvents blocks1)) []"
    using run1 by (rule collectBlocks_001_fold)
  have acc2: "acc2 = fold setAdd (touchedSeq lib (windowEvents blocks2)) []"
    using run2 by (rule collectBlocks_001_fold)
  have d: "distinct acc1" "distinct acc2" by (simp_all add: acc1 acc2)
  have s1: "set acc1 = set (touchedSeq lib (windowEvents blocks1))" by (simp add: acc1)
  have s2: "set acc2 = set acc1" using same by (simp add: acc1 acc2)
  have injd: "inj_on (decodeHex lib) (set acc1)"
    using hex by (intro inj_on_inverseI [where g = "toHex lib"]) simp
  have dd: "distinct ?ids1" "distinct ?ids2"
    using d injd s2 by (simp_all add: distinct_map)
  have st1: "st1 = saveAccounts_000 lib ch st block ?ids1"
    using save1 by (rule saveAccounts_001_Inr)
  have len: "length bs = card (set (touchedSeq lib (windowEvents blocks1)))"
    if "getBalances_001 ch block ?ids1 = Inr (Some bs)" for bs
  proof -
    from getBalances_001_Inr [OF that] have "length bs = length acc1"
      by (simp add: getBalances_000_length)
    with d(1) s1 show ?thesis by (simp add: distinct_card [symmetric])
  qed
  have sets: "set ?ids1 = set ?ids2" using s2 by simp
  have inj1: "inj_on (encodeId lib) (set ?ids1)" using inj by simp
  have other: "\<exists>st2. saveAccounts_001 lib ch st block ?ids2 = Inr st2 \<and> accounts st2 = accounts st1"
    using saveAccounts_001_other_ids [OF save1, of ?ids2]
      saveAccounts_000_set_cong [OF sets inj1, of ch st block]
    by (simp add: st1)
  have row: "(\<exists>st3. saveAccounts_001 lib ch st block [decodeHex lib x] = Inr st3
                 \<and> fmlookup (accounts st1) (encodeId lib (decodeHex lib x))
                     = fmlookup (accounts st3) (encodeId lib (decodeHex lib x)))
            \<and> (getStorageItemTypeHash ch ''System'' ''Account'' \<noteq> None \<longrightarrow>
                  fmlookup (accounts st1) (encodeId lib (decodeHex lib x)) =
                    (let b = toBalance (systemAccountAt ch (hash block) [decodeHex lib x]) in
                     if 0 < free b + reserved b
                     then Some (newAccount (encodeId lib (decodeHex lib x)) b
                                  (free b + reserved b) (height block))
                     else None))"
    if x: "x \<in> set (touchedSeq lib (windowEvents blocks1))" for x
  proof -
    have mem: "decodeHex lib x \<in> set ?ids1" using x s1 by simp
    have one: "inj_on (encodeId lib) (set [decodeHex lib x])"
      "decodeHex lib x \<in> set [decodeHex lib x]" by simp_all
    have all: "fmlookup (accounts st1) (encodeId lib (decodeHex lib x))
        = fmlookup (accounts (saveAccounts_000 lib ch st block [decodeHex lib x]))
            (encodeId lib (decodeHex lib x))"
      unfolding st1 saveAccounts_000_row [OF inj1 mem] saveAccounts_000_row [OF one] ..
    have known: "fmlookup (accounts st1) (encodeId lib (decodeHex lib x)) =
                    (let b = toBalance (systemAccountAt ch (hash block) [decodeHex lib x]) in
                     if 0 < free b + reserved b
                     then Some (newAccount (encodeId lib (decodeHex lib x)) b
                                  (free b + reserved b) (height block))
                     else None)"
      if "getStorageItemTypeHash ch ''System'' ''Account'' \<noteq> None"
      using that saveAccounts_000_row [OF inj1 mem, of ch st block] by (auto simp: st1)
    from saveAccounts_001_other_ids [OF save1, of "[decodeHex lib x]"] all known
    show ?thesis by blast
  qed
  from d s1 s2 dd len other row show ?thesis by blast
qed

theorem C7_accumulation_witness:
  "collectBlocks_001 demoLib windowA [] = Inr [''xa'', ''xb'']
   \<and> collectBlocks_001 demoLib windowB [] = Inr [''xb'', ''xa'']
   \<and> set (touchedSeq demoLib (windowEvents windowA)) = set (touchedSeq demoLib (windowEvents windowB))
   \<and> toHex demoLib (decodeHex demoLib ''xa'') = ''xa''
   \<and> toHex demoLib (decodeHex demoLib ''xb'') = ''xb''
   \<and> inj_on (encodeId demoLib) (decodeHex demoLib ` set [''xa'', ''xb''])
   \<and> saveAccounts_001 demoLib demoChain demoStore demoBlock (map (decodeHex demoLib) [''xa'', ''xb''])
       = Inr \<lparr>accounts = fmupd ''calamari:A''
                 (newAccount ''calamari:A'' \<lparr>free = 30, reserved = 20\<rparr> 50 7) fmempty,
              chainStates = [], currentChainState = None\<rparr>
   \<and> distinct (map (decodeHex demoLib) [''xb'', ''xa''])
   \<and> (\<exists>st2. saveAccounts_001 demoLib demoChain demoStore demoBlock (map (decodeHex demoLib) [''xb'', ''xa''])
          = Inr st2
        \<and> accounts st2 = fmupd ''calamari:A''
                 (newAccount ''calamari:A'' \<lparr>free = 30, reserved = 20\<rparr> 50 7) fmempty)"
proof -
  have same: "set (touchedSeq demoLib (windowEvents windowA)) = set (touchedSeq demoLib (windowEvents windowB))"
    by (auto simp: touchedSeq_def windowEvents_def windowA_def windowB_def demo_kinds demo_items)
  have hex: "\<forall>x\<in>set [''xa'', ''xb'']. toHex demoLib (decodeHex demoLib x) = x"
    by (simp add: demo_decode)
  have inj: "inj_on (encodeId demoLib) (decodeHex demoLib ` set [''xa'', ''xb''])"
    by (simp add: demo_decode demo_ids)
  have save: "saveAccounts_001 demoLib demoChain demoStore demoBlock (map (decodeHex demoLib) [''xa'', ''xb''])
       = Inr \<lparr>accounts = fmupd ''calamari:A''
                 (newAccount ''calamari:A'' \<lparr>free = 30, reserved = 20\<rparr> 50 7) fmempty,
              chainStates = [], currentChainState = None\<rparr>"
    by (simp add: demo_decode demo_save_001)
  from C7_accumulation_idempotent_order_insensitive
         [OF demo_accumulate(1) demo_accumulate(2) same hex inj save]
  show ?thesis using same inj save demo_accumulate by (simp add: demo_decode)
qed

end
